theory Spec2Isabelle
  imports Complex_Main "HOL-Library.Word" "HOL-Library.AList"
begin

section \<open>Number formatting (strconv.Itoa, strconv.FormatUint, fmt verbs v and x)\<close>

text \<open>
  Go renders an unsigned number in base 10 (\<open>strconv.FormatUint(n, 10)\<close>, the verb
  \<open>%v\<close> on an integer) or in lower-case base 16 (the verb \<open>%x\<close>) without
  leading zeros; zero is rendered as the single digit \<open>0\<close>.
\<close>

definition digit_char :: "nat \<Rightarrow> char" where
  "digit_char d = ''0123456789abcdef'' ! d"

function to_base :: "nat \<Rightarrow> nat \<Rightarrow> string" where
  "to_base b n =
     (if b < 2 \<or> n < b then [digit_char n]
      else to_base b (n div b) @ [digit_char (n mod b)])"
  by pat_completeness auto
termination
  by (relation "measure (\<lambda>(b, n). n)") auto

declare to_base.simps [simp del]

definition dec :: "nat \<Rightarrow> string" where
  "dec n = to_base 10 n"

definition hex :: "nat \<Rightarrow> string" where
  "hex n = to_base 16 n"

text \<open>\<open>strconv.Itoa\<close>: a signed decimal, with a minus sign for negative numbers.\<close>

definition Itoa :: "int \<Rightarrow> string" where
  "Itoa i = (if i < 0 then CHR ''-'' # dec (nat (- i)) else dec (nat i))"

section \<open>Errors, panics and the QMP connection\<close>

datatype error =
    QmpError string
  | VinceIsUnstoppable
  | VmNotRunning string
  | NoCdromInserted
  | NoSuchHotplugDevice
  | NoHotplugDevicesToRemove
  | InvalidVersion string
  | CouldNotDecodeStatus
  | CouldNotDecodeRam
  | InvalidRamType
  | ZeroTotalRam

text \<open>
  The commands the typed wrappers of the QMP client send. The client itself is an external
  collaborator; its answer to a command may depend on everything sent before, so a
  connection is modelled as a function from the history of commands and the new command to
  the error it returns (\<open>None\<close> for success).
\<close>

datatype qmp_cmd =
    QStart
  | QStop
  | QDriveAdd string string
  | QUSBDeviceAdd string string
  | QUSBDeviceDel string
  | QDriveDel string
  | QBlockdevChange string string
  | QBlockdevEject string

type_synonym qmp_conn = "qmp_cmd list \<Rightarrow> qmp_cmd \<Rightarrow> error option"

section \<open>The KVM configuration\<close>

record qemuOverride =
  Match :: string
  Repl :: string

text \<open>
  \<open>KVMConfig\<close>. Its four sequence fields are Go slices, that is references to arrays.
  Where the sharing of those arrays matters (\<open>Copy\<close>) a field holds a slice header
  pointing into a store; where only the contents are read (the argument builder, the VM
  operations) it holds the contents. The record is therefore parametric in the type
  \<open>'s\<close> of a \<open>[]string\<close> field and the type \<open>'o\<close> of the \<open>[]qemuOverride\<close> field.
\<close>

record ('s, 'o) KVMConfig =
  QemuPath :: string
  KernelPath :: string
  InitrdPath :: string
  CdromPath :: string
  MigratePath :: string
  CPU :: string
  SerialPorts :: "64 word"
  VirtioPorts :: "64 word"
  Append :: 's
  DiskPaths :: 's
  QemuAppend :: 's
  QemuOverride :: 'o

subsection \<open>Slices in a store, and Copy\<close>

text \<open>
  A slice header: the address of the backing array and the length (slices here always start
  at the first element of their array; nothing below re-slices or appends). The store maps
  an address to the array kept there, separately for arrays of strings and arrays of
  overrides; addresses from \<open>next_array\<close> on are free.
\<close>

record slice =
  Data :: nat
  Len :: nat

record store =
  string_arrays :: "nat \<Rightarrow> string list"
  override_arrays :: "nat \<Rightarrow> qemuOverride list"
  next_array :: nat

text \<open>The contents of a slice, as reading its elements in order gives them.\<close>

definition strings_of :: "store \<Rightarrow> slice \<Rightarrow> string list" where
  "strings_of h s = take (Len s) (string_arrays h (Data s))"

definition overrides_of :: "store \<Rightarrow> slice \<Rightarrow> qemuOverride list" where
  "overrides_of h s = take (Len s) (override_arrays h (Data s))"

text \<open>
  The assignment \<open>s[i] = v\<close>: it writes into the backing array, and panics
  (\<open>None\<close>) when the index is out of range.
\<close>

definition set_string :: "slice \<Rightarrow> nat \<Rightarrow> string \<Rightarrow> store \<Rightarrow> store option" where
  "set_string s i v h =
     (if i < Len s
      then Some (h\<lparr>string_arrays := (string_arrays h)(Data s := (string_arrays h (Data s))[i := v])\<rparr>)
      else None)"

definition set_override :: "slice \<Rightarrow> nat \<Rightarrow> qemuOverride \<Rightarrow> store \<Rightarrow> store option" where
  "set_override s i v h =
     (if i < Len s
      then Some (h\<lparr>override_arrays :=
                     (override_arrays h)(Data s := (override_arrays h (Data s))[i := v])\<rparr>)
      else None)"

text \<open>\<open>make([]string, n)\<close>: a fresh array of \<open>n\<close> empty strings.\<close>

definition make_strings :: "nat \<Rightarrow> store \<Rightarrow> slice \<times> store" where
  "make_strings n h =
     (\<lparr>Data = next_array h, Len = n\<rparr>,
      h\<lparr>string_arrays := (string_arrays h)(next_array h := replicate n ''''),
        next_array := Suc (next_array h)\<rparr>)"

text \<open>The builtin \<open>copy(dst, src)\<close>: it copies as many elements as the shorter slice has.\<close>

definition copy_strings :: "slice \<Rightarrow> slice \<Rightarrow> store \<Rightarrow> store" where
  "copy_strings dst src h =
     (let k = min (Len dst) (Len src)
      in h\<lparr>string_arrays := (string_arrays h)
             (Data dst := take k (string_arrays h (Data src)) @
                          drop k (string_arrays h (Data dst)))\<rparr>)"

text \<open>
  \<open>KVMConfig.Copy\<close>: \<open>res := old\<close> copies every field, slice headers included; then
  \<open>DiskPaths\<close> and \<open>QemuAppend\<close> get arrays of their own.
\<close>

definition Copy :: "(slice, slice) KVMConfig \<Rightarrow> store \<Rightarrow> (slice, slice) KVMConfig \<times> store" where
  "Copy old h =
     (let res = old;
          (d, h1) = make_strings (Len (DiskPaths old)) h;
          res = res\<lparr>DiskPaths := d\<rparr>;
          h2 = copy_strings (DiskPaths res) (DiskPaths old) h1;
          (a, h3) = make_strings (Len (QemuAppend old)) h2;
          res = res\<lparr>QemuAppend := a\<rparr>;
          h4 = copy_strings (QemuAppend res) (QemuAppend old) h3
      in (res, h4))"

text \<open>
  A configuration whose kernel append tokens are \<open>[''root=/dev/sda'']\<close> and whose
  overrides are one pair, both in arrays of the store; it has one disk and one extra QEMU
  argument.
\<close>

definition example_store :: store where
  "example_store =
     \<lparr>string_arrays = (\<lambda>a. [])(1 := [''root=/dev/sda''], 2 := [''/disk.img''],
                                 3 := [''-no-reboot'']),
      override_arrays = (\<lambda>a. [])(1 := [\<lparr>Match = ''-vga std'', Repl = ''-vga qxl''\<rparr>]),
      next_array = 4\<rparr>"

definition example_config :: "(slice, slice) KVMConfig" where
  "example_config =
     \<lparr>QemuPath = '''', KernelPath = ''/vmlinuz'', InitrdPath = '''', CdromPath = '''',
      MigratePath = '''', CPU = ''host'', SerialPorts = 0, VirtioPorts = 0,
      Append = \<lparr>Data = 1, Len = 1\<rparr>, DiskPaths = \<lparr>Data = 2, Len = 1\<rparr>,
      QemuAppend = \<lparr>Data = 3, Len = 1\<rparr>, QemuOverride = \<lparr>Data = 1, Len = 1\<rparr>\<rparr>"

section \<open>The VM instance\<close>

datatype VMState = VM_BUILDING | VM_RUNNING | VM_PAUSED | VM_QUIT | VM_ERROR

record vmHotplug =
  Disk :: string
  Version :: string

text \<open>
  \<open>KvmVM\<close> embeds \<open>KVMConfig\<close> (the record extends it) and \<open>BaseVM\<close>, of which
  the fields that the operations below read or write are kept. \<open>sent\<close> is the history of the commands
  issued on the QMP connection \<open>vm.q\<close>; \<open>error_tag\<close> is the error recorded by
  \<open>setError\<close>. The hotplug table \<open>map[int]vmHotplug\<close> is an association list
  with distinct keys, in the (unspecified) order in which Go iterates over the map.
\<close>

record KvmVM = "(string list, qemuOverride list) KVMConfig" +
  Name :: string
  ID :: int
  State :: VMState
  error_tag :: "error option"
  hotplug :: "(int \<times> vmHotplug) list"
  sent :: "qmp_cmd list"

text \<open>
  Modelled from the spec: \<open>BaseVM.setState\<close> and \<open>BaseVM.setError\<close> are not among
  the source files. The spec speaks of "transitions to PAUSED" and "sets ERROR":
  \<open>setState\<close> stores the new state, \<open>setError\<close> records the error and moves to
  \<open>VM_ERROR\<close>.
\<close>

definition setState :: "VMState \<Rightarrow> KvmVM \<Rightarrow> KvmVM" where
  "setState s vm = vm\<lparr>State := s\<rparr>"

definition setError :: "error \<Rightarrow> KvmVM \<Rightarrow> KvmVM" where
  "setError e vm = setState VM_ERROR (vm\<lparr>error_tag := Some e\<rparr>)"

text \<open>A VM with an empty configuration and an empty hotplug table, for the examples.\<close>

definition example_vm :: KvmVM where
  "example_vm =
     \<lparr>QemuPath = '''', KernelPath = '''', InitrdPath = '''', CdromPath = '''',
      MigratePath = '''', CPU = ''host'', SerialPorts = 0, VirtioPorts = 0,
      Append = [], DiskPaths = [], QemuAppend = [], QemuOverride = [],
      Name = ''vm0'', ID = 0, State = VM_RUNNING, error_tag = None, hotplug = [], sent = []\<rparr>"

text \<open>A QMP peer that accepts every command, and one that refuses every command.\<close>

definition qmp_accept :: qmp_conn where
  "qmp_accept history c = None"

definition qmp_refuse :: qmp_conn where
  "qmp_refuse history c = Some (QmpError ''refused'')"

text \<open>One round trip on \<open>vm.q\<close>: the command is appended to the history.\<close>

definition qmp_call :: "qmp_conn \<Rightarrow> qmp_cmd \<Rightarrow> KvmVM \<Rightarrow> error option \<times> KvmVM" where
  "qmp_call q c vm = (q (sent vm) c, vm\<lparr>sent := sent vm @ [c]\<rparr>)"

subsection \<open>Stop\<close>

text \<open>\<open>KvmVM.Stop\<close>: returns the error (if any) and the VM after the call.\<close>

definition Stop :: "qmp_conn \<Rightarrow> KvmVM \<Rightarrow> error option \<times> KvmVM" where
  "Stop q vm =
     (if Name vm = ''vince'' then (Some VinceIsUnstoppable, vm)
      else if State vm \<noteq> VM_RUNNING then (Some (VmNotRunning (Itoa (ID vm))), vm)
      else (case qmp_call q QStop vm of
              (Some err, vm') \<Rightarrow> (Some err, setError err vm')
            | (None, vm') \<Rightarrow> (None, setState VM_PAUSED vm')))"

subsection \<open>EjectCD\<close>

definition ejectCD :: "qmp_conn \<Rightarrow> KvmVM \<Rightarrow> error option \<times> KvmVM" where
  "ejectCD q vm =
     (case qmp_call q (QBlockdevEject ''ide0-cd1'') vm of
        (None, vm') \<Rightarrow> (None, vm'\<lparr>CdromPath := ''''\<rparr>)
      | (Some err, vm') \<Rightarrow> (Some err, vm'))"

definition EjectCD :: "qmp_conn \<Rightarrow> KvmVM \<Rightarrow> error option \<times> KvmVM" where
  "EjectCD q vm =
     (if CdromPath vm = '''' then (Some NoCdromInserted, vm) else ejectCD q vm)"

subsection \<open>QueryMigrate\<close>

text \<open>
  The reply of \<open>vm.q.QueryMigrate()\<close> is a \<open>map[string]interface{}\<close> decoded from
  JSON: a number is a \<open>float64\<close>, an object a nested map. The numbers are modelled as
  reals (a decoded JSON number is finite; rounding plays no role in what is proved below).
  A map is an association list read with \<open>map_of\<close>.
\<close>

datatype json =
    JNull
  | JBool bool
  | JNumber real
  | JString string
  | JArray "json list"
  | JObject "(string \<times> json) list"

text \<open>
  A type assertion \<open>x.(T)\<close> without the \<open>ok\<close> result panics when \<open>x\<close> does not
  hold a \<open>T\<close>; the three assertions of \<open>QueryMigrate\<close> are named after what they read.
\<close>

datatype assertion = StatusIsString | TotalIsFloat | TransferredIsFloat

datatype 'a outcome = Panics assertion | Returns 'a

text \<open>
  Indexing a map yields the zero value (the nil interface) for a missing key, and a nil map
  has no keys; \<open>None\<close> below is the nil map \<open>ram\<close> that is declared but never assigned.
\<close>

definition index_map :: "(string \<times> json) list option \<Rightarrow> string \<Rightarrow> json option" where
  "index_map m k = (case m of None \<Rightarrow> None | Some kvs \<Rightarrow> map_of kvs k)"

text \<open>The tail of \<open>QueryMigrate\<close>, after the \<open>switch\<close> on the status.\<close>

definition migrate_progress ::
    "string \<Rightarrow> (string \<times> json) list option \<Rightarrow> (string \<times> real \<times> error option) outcome" where
  "migrate_progress status ram =
     (case index_map ram ''total'' of
        Some (JNumber total') \<Rightarrow>
          (case index_map ram ''transferred'' of
             Some (JNumber transferred) \<Rightarrow>
               (if total' = 0 then Returns (status, 0, Some ZeroTotalRam)
                else Returns (status, transferred / total', None))
           | _ \<Rightarrow> Panics TransferredIsFloat)
      | _ \<Rightarrow> Panics TotalIsFloat)"

definition QueryMigrate ::
    "error + (string \<times> json) list \<Rightarrow> (string \<times> real \<times> error option) outcome" where
  "QueryMigrate reply =
     (case reply of
        Inl err \<Rightarrow> Returns ('''', 0, Some err)
      | Inr r \<Rightarrow>
          (case map_of r ''status'' of
             None \<Rightarrow> Returns ('''', 0, Some CouldNotDecodeStatus)
           | Some (JString status) \<Rightarrow>
               (if status = ''completed'' then Returns (status, 100, None)
                else if status = ''failed'' then Returns (status, 0, None)
                else if status = ''active'' then
                  (case map_of r ''ram'' of
                     None \<Rightarrow> Returns (status, 0, Some CouldNotDecodeRam)
                   | Some (JObject ram) \<Rightarrow> migrate_progress status (Some ram)
                   | Some _ \<Rightarrow> Returns (status, 0, Some InvalidRamType))
                else migrate_progress status None)
           | Some _ \<Rightarrow> Panics StatusIsString))"

subsection \<open>Hotplug and HotplugRemove\<close>

text \<open>
  The loop of \<open>Hotplug\<close> that picks the new id: one more than the highest key of the
  table, 0 for an empty table. \<open>fold\<close> visits the keys in the order of the list.
\<close>

definition hotplug_id :: "(int \<times> vmHotplug) list \<Rightarrow> int" where
  "hotplug_id tbl = fold (\<lambda>k n. if k \<ge> n then k + 1 else n) (map fst tbl) 0"

text \<open>The part of \<open>Hotplug\<close> after the \<open>switch\<close> on the USB version.\<close>

definition hotplug_on :: "qmp_conn \<Rightarrow> string \<Rightarrow> string \<Rightarrow> string \<Rightarrow> KvmVM \<Rightarrow> error option \<times> KvmVM" where
  "hotplug_on q f version bus vm =
     (let n = hotplug_id (hotplug vm);
          hid = ''hotplug'' @ Itoa n
      in case qmp_call q (QDriveAdd hid f) vm of
           (Some err, vm1) \<Rightarrow> (Some err, vm1)
         | (None, vm1) \<Rightarrow>
             (case qmp_call q (QUSBDeviceAdd hid bus) vm1 of
                (Some err, vm2) \<Rightarrow> (Some err, vm2)
              | (None, vm2) \<Rightarrow>
                  (None, vm2\<lparr>hotplug :=
                     AList.update n \<lparr>Disk = f, Version = version\<rparr> (hotplug vm2)\<rparr>)))"

definition Hotplug :: "qmp_conn \<Rightarrow> string \<Rightarrow> string \<Rightarrow> KvmVM \<Rightarrow> error option \<times> KvmVM" where
  "Hotplug q f version vm =
     (if version = '''' \<or> version = ''1.1'' then hotplug_on q f ''1.1'' ''usb-bus.0'' vm
      else if version = ''2.0'' then hotplug_on q f version ''ehci.0'' vm
      else (Some (InvalidVersion version), vm))"

definition hotplugRemove :: "qmp_conn \<Rightarrow> int \<Rightarrow> KvmVM \<Rightarrow> error option \<times> KvmVM" where
  "hotplugRemove q n vm =
     (let hid = ''hotplug'' @ Itoa n
      in case map_of (hotplug vm) n of
           None \<Rightarrow> (Some NoSuchHotplugDevice, vm)
         | Some _ \<Rightarrow>
             (case qmp_call q (QUSBDeviceDel hid) vm of
                (Some err, vm1) \<Rightarrow> (Some err, vm1)
              | (None, vm1) \<Rightarrow>
                  (case qmp_call q (QDriveDel hid) vm1 of
                     (Some err, vm2) \<Rightarrow> (Some err, vm2)
                   | (None, vm2) \<Rightarrow>
                       (None, vm2\<lparr>hotplug := AList.delete n (hotplug vm2)\<rparr>))))"

definition HotplugRemove :: "qmp_conn \<Rightarrow> int \<Rightarrow> KvmVM \<Rightarrow> error option \<times> KvmVM" where
  "HotplugRemove q n vm = hotplugRemove q n vm"

text \<open>
  A sequence of operator commands on one VM. For every Hotplug that succeeds, the run
  records the id it assigned together with the keys of the table just before the call.
\<close>

datatype hotplug_op = DoHotplug string string | DoHotplugRemove int

fun run_hotplug_ops ::
    "qmp_conn \<Rightarrow> hotplug_op list \<Rightarrow> KvmVM \<Rightarrow> (int \<times> int list) list \<times> KvmVM" where
  "run_hotplug_ops q [] vm = ([], vm)"
| "run_hotplug_ops q (DoHotplug f version # ops) vm =
     (case Hotplug q f version vm of
        (None, vm') \<Rightarrow>
          (case run_hotplug_ops q ops vm' of
             (assigned, vm'') \<Rightarrow>
               ((hotplug_id (hotplug vm), map fst (hotplug vm)) # assigned, vm''))
      | (Some err, vm') \<Rightarrow> run_hotplug_ops q ops vm')"
| "run_hotplug_ops q (DoHotplugRemove n # ops) vm =
     run_hotplug_ops q ops (snd (HotplugRemove q n vm))"

section \<open>The argument builder\<close>

subsection \<open>Paths: filepath.Join\<close>

text \<open>
  \<open>filepath.Join\<close> of the Go library, on a system whose separator is the slash, for
  two elements: empty elements are ignored, the others are joined by a slash and the result
  is cleaned (\<open>filepath.Clean\<close>: empty and \<open>.\<close> components dropped, a \<open>..\<close> component
  removes the component before it, is dropped at the root and kept at the start of a
  relative path; the empty path becomes \<open>.\<close>).
\<close>

fun split_on :: "char \<Rightarrow> string \<Rightarrow> string list" where
  "split_on c [] = [[]]"
| "split_on c (x # xs) =
     (if x = c then [] # split_on c xs
      else (case split_on c xs of w # ws \<Rightarrow> (x # w) # ws | [] \<Rightarrow> [[x]]))"

fun join_with :: "string \<Rightarrow> string list \<Rightarrow> string" where
  "join_with sep [] = []"
| "join_with sep [w] = w"
| "join_with sep (w # ws) = w @ sep @ join_with sep ws"

definition clean_step :: "bool \<Rightarrow> string \<Rightarrow> string list \<Rightarrow> string list" where
  "clean_step rooted e out =
     (if e = '''' \<or> e = ''.'' then out
      else if e = ''..'' then
        (if out \<noteq> [] \<and> last out \<noteq> ''..'' then butlast out
         else if rooted then out
         else out @ [''..''])
      else out @ [e])"

definition Clean :: "string \<Rightarrow> string" where
  "Clean path =
     (if path = '''' then ''.''
      else let rooted = (hd path = CHR ''/'');
               out = fold (clean_step rooted) (split_on CHR ''/'' path) [];
               s = (if rooted then ''/'' else '''') @ join_with ''/'' out
           in if s = '''' then ''.'' else s)"

definition Join :: "string \<Rightarrow> string \<Rightarrow> string" where
  "Join a b =
     (if a \<noteq> '''' then Clean (a @ ''/'' @ b)
      else if b \<noteq> '''' then Clean b
      else '''')"

subsection \<open>The configuration of a VM\<close>

text \<open>
  Modelled from the spec: \<open>BaseConfig\<close> and the type of its \<open>Networks\<close> are not among
  the source files. The builder reads the fields \<open>Memory\<close>, \<open>VCPUs\<close> (unsigned),
  \<open>Snapshot\<close>, \<open>UUID\<close> and \<open>Networks\<close>, and of a network its \<open>Tap\<close>,
  \<open>Driver\<close> and \<open>MAC\<close>; the spec lists a network as bridge, vlan, mac, driver and
  tap name. \<open>VMConfig\<close> holds a \<open>BaseConfig\<close> and a \<open>KVMConfig\<close>.
\<close>

record NetConfig =
  Bridge :: string
  VLAN :: int
  MAC :: string
  Driver :: string
  Tap :: string

record ('s, 'o) VMConfig = "('s, 'o) KVMConfig" +
  Memory :: "64 word"
  VCPUs :: "64 word"
  Snapshot :: bool
  UUID :: string
  Networks :: "NetConfig list"

definition DEV_PER_BUS :: nat where
  "DEV_PER_BUS = 32"

definition DEV_PER_VIRTIO :: nat where
  "DEV_PER_VIRTIO = 30"

subsection \<open>The PCI layout\<close>

text \<open>
  The variables \<open>args\<close>, \<open>bus\<close> and \<open>addr\<close> of \<open>qemuArgs\<close>, which the closure
  \<open>addBus\<close> and the loops update. \<open>bus\<close> and \<open>addr\<close> are Go \<open>int\<close>s that start
  at 0 and only count devices, far below \<open>2^63\<close>; they are natural numbers here.
\<close>

type_synonym pci_state = "string list \<times> nat \<times> nat"

text \<open>The three format strings that put a device on a PCI bus.\<close>

definition bridge_arg :: "nat \<Rightarrow> string" where
  "bridge_arg bus = ''pci-bridge,id=pci.'' @ dec bus @ '',chassis_nr='' @ dec bus"

definition nic_arg :: "NetConfig \<Rightarrow> nat \<Rightarrow> nat \<Rightarrow> string" where
  "nic_arg net bus addr =
     ''driver='' @ Driver net @ '',netdev='' @ Tap net @ '',mac='' @ MAC net @
       '',bus=pci.'' @ dec bus @ '',addr=0x'' @ hex addr"

definition virtio_pci_arg :: "nat \<Rightarrow> nat \<Rightarrow> nat \<Rightarrow> string" where
  "virtio_pci_arg virtio_slot bus addr =
     ''virtio-serial-pci,id=virtio-serial'' @ dec virtio_slot @
       '',bus=pci.'' @ dec bus @ '',addr=0x'' @ hex addr"

fun addBus :: "pci_state \<Rightarrow> pci_state" where
  "addBus (args, bus, addr) = (args @ [''-device'', bridge_arg (bus + 1)], bus + 1, 1)"

text \<open>The body of the loop over \<open>vm.Networks\<close>.\<close>

fun add_net :: "NetConfig \<Rightarrow> pci_state \<Rightarrow> pci_state" where
  "add_net net (args, bus, addr) =
     (let args = args @
            [''-netdev'', ''tap,id='' @ Tap net @ '',script=no,ifname='' @ Tap net,
             ''-device'', nic_arg net bus addr];
          addr = addr + 1
      in if addr = DEV_PER_BUS then addBus (args, bus, addr) else (args, bus, addr))"

text \<open>The command-and-control port, always present.\<close>

definition cc_port_arg :: string where
  "cc_port_arg =
     ''virtserialport,nr=1,bus=virtio-serial0.0,chardev=charvserialCC,id=charvserialCC,name=cc''"

fun add_cc :: "string \<Rightarrow> pci_state \<Rightarrow> pci_state" where
  "add_cc vmPath (args, bus, addr) =
     (let args = args @
            [''-device'', virtio_pci_arg 0 bus addr,
             ''-chardev'',
             ''socket,id=charvserialCC,path='' @ Join vmPath ''cc'' @ '',server,nowait'',
             ''-device'',
             cc_port_arg];
          addr = addr + 1
      in if addr = DEV_PER_BUS then addBus (args, bus, addr) else (args, bus, addr))"

definition virtio_port_arg :: "nat \<Rightarrow> nat \<Rightarrow> nat \<Rightarrow> string" where
  "virtio_port_arg nr virtio_slot i =
     ''virtserialport,nr='' @ dec nr @ '',bus=virtio-serial'' @ dec virtio_slot @
       ''.0,chardev=charvserial'' @ dec i @ '',id=charvserial'' @ dec i @
       '',name=virtio-serial'' @ dec i"

text \<open>
  The body of the loop over the virtio ports; the fourth component is \<open>virtio_slot\<close>.
  The loop variable \<open>i\<close> is a \<open>uint64\<close> below \<open>vm.VirtioPorts\<close>.
\<close>

fun add_virtio :: "string \<Rightarrow> nat \<Rightarrow> pci_state \<times> nat \<Rightarrow> pci_state \<times> nat" where
  "add_virtio vmPath i ((args, bus, addr), virtio_slot) =
     (let nr = i mod DEV_PER_VIRTIO + 1;
          ((args, bus, addr), virtio_slot) =
            (if nr = 1 then
               (let virtio_slot = virtio_slot + 1;
                    args = args @ [''-device'', virtio_pci_arg virtio_slot bus addr];
                    addr = addr + 1
                in (if addr = DEV_PER_BUS then addBus (args, bus, addr) else (args, bus, addr),
                    virtio_slot))
             else ((args, bus, addr), virtio_slot));
          args = args @
            [''-chardev'',
             ''socket,id=charvserial'' @ dec i @ '',path='' @ Join vmPath ''virtio-serial'' @
               dec i @ '',server,nowait'',
             ''-device'', virtio_port_arg nr virtio_slot i]
      in ((args, bus, addr), virtio_slot))"
subsection \<open>qemuArgs\<close>

text \<open>The body of the loop over the serial ports.\<close>

definition add_serial :: "string \<Rightarrow> nat \<Rightarrow> string list \<Rightarrow> string list" where
  "add_serial vmPath i args =
     args @
       [''-chardev'',
        ''socket,id=charserial'' @ dec i @ '',path='' @ Join vmPath ''serial'' @ dec i @
          '',server,nowait'',
        ''-device'',
        ''isa-serial,chardev=charserial'' @ dec i @ '',id=serial'' @ dec i]"

text \<open>
  \<open>VMConfig.qemuArgs\<close>, in three parts: the arguments before the PCI layout, the PCI
  layout (network devices and virtio ports), and the arguments after it. Two things it uses
  are not among the source files and are parameters: the function \<open>unescapeString\<close>,
  which joins the kernel append tokens, and the global \<open>hugepagesMountPath\<close>.
\<close>

definition qemuArgs_head ::
    "(string list \<Rightarrow> string) \<Rightarrow> (string list, 'o) VMConfig \<Rightarrow> int \<Rightarrow> string \<Rightarrow> string list" where
  "qemuArgs_head unescapeString vm id' vmPath =
     (let args = [''-enable-kvm'',
                  ''-name'', Itoa id',
                  ''-m'', dec (unat (Memory vm)),
                  ''-nographic'',
                  ''-balloon'', ''none'',
                  ''-vnc'', ''unix:'' @ Join vmPath ''vnc'',
                  ''-smp'', dec (unat (VCPUs vm)),
                  ''-qmp'', ''unix:'' @ Join vmPath ''qmp'' @ '',server'',
                  ''-vga'', ''std'',
                  ''-rtc'', ''clock=vm,base=utc'',
                  ''-device'', ''virtio-serial'',
                  ''-usb'',
                  ''-device'', ''usb-ehci,id=ehci'',
                  ''-device'', ''usb-tablet,bus=usb-bus.0''];
          args = fold (add_serial vmPath) [0..<unat (SerialPorts vm)] args;
          args = args @ [''-pidfile'', Join vmPath ''qemu.pid''];
          args = args @ [''-k'', ''en-us''];
          args = (if CPU vm \<noteq> '''' then args @ [''-cpu'', CPU vm] else args);
          args = args @ [''-net'', ''none''];
          args = args @ [''-S''];
          args = (if MigratePath vm \<noteq> ''''
                  then args @ [''-incoming'', ''exec:cat '' @ MigratePath vm] else args);
          args = fold (\<lambda>diskPath args. args @ [''-drive'', ''file='' @ diskPath @ '',media=disk''])
                   (DiskPaths vm) args;
          args = (if Snapshot vm then args @ [''-snapshot''] else args);
          args = (if KernelPath vm \<noteq> '''' then args @ [''-kernel'', KernelPath vm] else args);
          args = (if InitrdPath vm \<noteq> '''' then args @ [''-initrd'', InitrdPath vm] else args);
          args = (if length (Append vm) > 0
                  then args @ [''-append'', unescapeString (Append vm)] else args);
          args = (if CdromPath vm \<noteq> ''''
                  then args @ [''-drive'', ''file='' @ CdromPath vm @ '',media=cdrom'',
                               ''-boot'', ''once=d'']
                  else args @ [''-drive'', ''media=cdrom''])
      in args)"

definition qemuArgs_pci :: "(string list, 'o) VMConfig \<Rightarrow> string \<Rightarrow> string list \<Rightarrow> string list" where
  "qemuArgs_pci vm vmPath args =
     (let st = addBus (args, 0, 0);
          st = fold add_net (Networks vm) st;
          st = add_cc vmPath st;
          (st, virtio_slot) = fold (add_virtio vmPath) [0..<unat (VirtioPorts vm)] (st, 0)
      in fst st)"

definition qemuArgs_tail :: "string \<Rightarrow> (string list, 'o) VMConfig \<Rightarrow> string list \<Rightarrow> string list" where
  "qemuArgs_tail hugepagesMountPath vm args =
     (let args = (if hugepagesMountPath \<noteq> ''''
                  then args @ [''-mem-info'', hugepagesMountPath] else args);
          args = (if length (QemuAppend vm) > 0 then args @ QemuAppend vm else args);
          args = args @ [''-uuid'', UUID vm]
      in args)"

definition qemuArgs ::
    "(string list \<Rightarrow> string) \<Rightarrow> string \<Rightarrow> (string list, 'o) VMConfig \<Rightarrow> int \<Rightarrow> string
       \<Rightarrow> string list" where
  "qemuArgs unescapeString hugepagesMountPath vm id' vmPath =
     qemuArgs_tail hugepagesMountPath vm
       (qemuArgs_pci vm vmPath (qemuArgs_head unescapeString vm id' vmPath))"
text \<open>
  Scenario 1 of the spec (memory 512, one CPU, snapshot), and the same configuration with
  33 identical NICs (scenario 2). \<open>unescapeString\<close> is not called for an empty
  \<open>Append\<close>; the examples pass a function that joins with spaces.
\<close>

definition minimal_config :: "(string list, qemuOverride list) VMConfig" where
  "minimal_config =
     \<lparr>QemuPath = '''', KernelPath = '''', InitrdPath = '''', CdromPath = '''',
      MigratePath = '''', CPU = '''', SerialPorts = 0, VirtioPorts = 0,
      Append = [], DiskPaths = [], QemuAppend = [], QemuOverride = [],
      Memory = 512, VCPUs = 1, Snapshot = True,
      UUID = ''00000000-0000-0000-0000-000000000001'', Networks = []\<rparr>"

definition example_nic :: NetConfig where
  "example_nic =
     \<lparr>Bridge = ''mega_bridge'', VLAN = 100, MAC = ''00:11:22:33:44:55'', Driver = ''e1000'',
      Tap = ''mega_tap0''\<rparr>"

definition nics33_config :: "(string list, qemuOverride list) VMConfig" where
  "nics33_config = minimal_config\<lparr>Networks := replicate 33 example_nic\<rparr>"

subsection \<open>Reading an argument vector\<close>

text \<open>The values of the \<open>-device\<close> options of a vector: the tokens that follow one.\<close>

fun device_values :: "string list \<Rightarrow> string list" where
  "device_values (f # v # rest) =
     (if f = ''-device'' then v # device_values rest else device_values (v # rest))"
| "device_values rest = []"

definition is_bridge :: "string \<Rightarrow> bool" where
  "is_bridge tok = (take 11 tok = ''pci-bridge,'')"

definition is_nic :: "string \<Rightarrow> bool" where
  "is_nic tok = (take 7 tok = ''driver='')"

text \<open>
  The place of a device on the PCI buses, read back from the end of its token
  \<open>...,bus=pci.<bus>,addr=0x<addr>\<close>: the decimal bus number and the hexadecimal
  address; \<open>None\<close> for a token that does not end this way.
\<close>

definition digit_val :: "char \<Rightarrow> nat" where
  "digit_val c = length (takeWhile (\<lambda>d. d \<noteq> c) ''0123456789abcdef'')"

definition from_base :: "nat \<Rightarrow> string \<Rightarrow> nat" where
  "from_base b s = foldl (\<lambda>n c. n * b + digit_val c) 0 s"

definition is_digit :: "char \<Rightarrow> bool" where
  "is_digit c = (c \<in> set ''0123456789'')"

definition is_hex_digit :: "char \<Rightarrow> bool" where
  "is_hex_digit c = (c \<in> set ''0123456789abcdef'')"

definition pci_slot :: "string \<Rightarrow> (nat \<times> nat) option" where
  "pci_slot tok =
     (let r = rev tok;
          h = takeWhile is_hex_digit r;
          r1 = dropWhile is_hex_digit r;
          d = takeWhile is_digit (drop 8 r1);
          r2 = dropWhile is_digit (drop 8 r1)
      in if h \<noteq> [] \<and> take 8 r1 = rev '',addr=0x'' \<and> d \<noteq> [] \<and> take 9 r2 = rev '',bus=pci.''
         then Some (from_base 10 (rev d), from_base 16 (rev h))
         else None)"

text \<open>
  The devices that the PCI layout of a configuration places, in the order of the vector, as
  pairs of bus and address; and the \<open>pci-bridge\<close> tokens of the layout.
\<close>

definition pci_slots :: "(string list, 'o) VMConfig \<Rightarrow> string \<Rightarrow> (nat \<times> nat) list" where
  "pci_slots vm vmPath = List.map_filter pci_slot (device_values (qemuArgs_pci vm vmPath []))"

definition pci_bridges :: "(string list, 'o) VMConfig \<Rightarrow> string \<Rightarrow> string list" where
  "pci_bridges vm vmPath = filter is_bridge (device_values (qemuArgs_pci vm vmPath []))"

definition pci_nics :: "(string list, 'o) VMConfig \<Rightarrow> string \<Rightarrow> string list" where
  "pci_nics vm vmPath = filter is_nic (device_values (qemuArgs_pci vm vmPath []))"

text \<open>The number of \<open>virtio-serial-pci\<close> devices that the loop adds for \<open>n\<close> ports.\<close>

definition virtio_devices :: "nat \<Rightarrow> nat" where
  "virtio_devices n = (n + 29) div 30"
subsection \<open>The layout in closed form\<close>

text \<open>
  Counting the devices on the PCI buses from 0, device \<open>p\<close> sits on bus \<open>bus_of p\<close>
  at address \<open>addr_of p\<close>; a bridge is added before device 0 and after every 31st
  device. The functions below write the tokens of the PCI layout this way, front to back;
  they are shown equal to what the loops of \<open>qemuArgs\<close> produce, and serve to read
  off the devices, bridges and NICs of the vector.
\<close>

definition bus_of :: "nat \<Rightarrow> nat" where
  "bus_of p = 1 + p div 31"

definition addr_of :: "nat \<Rightarrow> nat" where
  "addr_of p = 1 + p mod 31"

definition bridge_chunk :: "nat \<Rightarrow> string list" where
  "bridge_chunk p = (if p mod 31 = 0 then [''-device'', bridge_arg (bus_of p)] else [])"

fun net_chunks :: "NetConfig list \<Rightarrow> nat \<Rightarrow> string list" where
  "net_chunks [] p = []"
| "net_chunks (net # nets) p =
     [''-netdev'', ''tap,id='' @ Tap net @ '',script=no,ifname='' @ Tap net,
      ''-device'', nic_arg net (bus_of p) (addr_of p)] @
     bridge_chunk (Suc p) @ net_chunks nets (Suc p)"

definition cc_chunk :: "string \<Rightarrow> nat \<Rightarrow> string list" where
  "cc_chunk vmPath p =
     [''-device'', virtio_pci_arg 0 (bus_of p) (addr_of p),
      ''-chardev'', ''socket,id=charvserialCC,path='' @ Join vmPath ''cc'' @ '',server,nowait'',
      ''-device'', cc_port_arg] @ bridge_chunk (Suc p)"

definition port_chunk :: "string \<Rightarrow> nat \<Rightarrow> nat \<Rightarrow> string list" where
  "port_chunk vmPath i slot =
     [''-chardev'',
      ''socket,id=charvserial'' @ dec i @ '',path='' @ Join vmPath ''virtio-serial'' @
        dec i @ '',server,nowait'',
      ''-device'', virtio_port_arg (i mod 30 + 1) slot i]"

fun virtio_chunks :: "string \<Rightarrow> nat list \<Rightarrow> nat \<Rightarrow> nat \<Rightarrow> string list" where
  "virtio_chunks vmPath [] p slot = []"
| "virtio_chunks vmPath (i # is) p slot =
     (if i mod 30 = 0
      then [''-device'', virtio_pci_arg (Suc slot) (bus_of p) (addr_of p)] @
           bridge_chunk (Suc p) @ port_chunk vmPath i (Suc slot) @
           virtio_chunks vmPath is (Suc p) (Suc slot)
      else port_chunk vmPath i slot @ virtio_chunks vmPath is p slot)"

definition new_devices :: "nat list \<Rightarrow> nat" where
  "new_devices is = length (filter (\<lambda>i. i mod 30 = 0) is)"

definition slots :: "string list \<Rightarrow> (nat \<times> nat) list" where
  "slots xs = List.map_filter pci_slot (device_values xs)"

definition slot_at :: "nat \<Rightarrow> nat \<times> nat" where
  "slot_at p = (bus_of p, addr_of p)"

definition device_count :: "(string list, 'o) VMConfig \<Rightarrow> nat" where
  "device_count vm = length (Networks vm) + 1 + virtio_devices (unat (VirtioPorts vm))"

definition bridges_of :: "string list \<Rightarrow> string list" where
  "bridges_of xs = filter is_bridge (device_values xs)"

definition brs :: "nat \<Rightarrow> nat \<Rightarrow> string list" where
  "brs p q = map bridge_arg [Suc (bus_of p)..<Suc (bus_of q)]"

definition nics_of :: "string list \<Rightarrow> string list" where
  "nics_of xs = filter is_nic (device_values xs)"

section \<open>The igor housekeeper\<close>

record Reservation =
  ResName :: string
  Hosts :: "string list"
  StartTime :: int
  EndTime :: int
  Vlan :: int

text \<open>
  What the housekeeper reads from outside: the clock, the file system (whether
  \<open>os.Stat\<close> of the PXE file of a reservation reports that it does not exist), the
  switch collaborator \<open>networkSet\<close>, the node backend (\<open>Install\<close>, \<open>Power\<close>), the
  \<open>AutoReboot\<close> setting and the result of encoding the schedule. A collaborator returns
  \<open>None\<close> for success.
\<close>

record igor_env =
  now :: int
  pxe_not_exist :: "Reservation \<Rightarrow> bool"
  networkSet :: "string list \<Rightarrow> int \<Rightarrow> string option"
  Install :: "Reservation \<Rightarrow> string option"
  Power :: "string list \<Rightarrow> bool \<Rightarrow> string option"
  AutoReboot :: bool
  encode_schedule :: "string option"

text \<open>
  A reservation that started at 100 and runs until 4000, seen at time 200 with no PXE file
  yet; the switch is unreachable, the install works, power-off works and power-on fails.
\<close>

definition example_reservation :: Reservation where
  "example_reservation =
     \<lparr>ResName = ''exp1'', Hosts = [''kn1'', ''kn2''], StartTime = 100, EndTime = 4000,
      Vlan = 101\<rparr>"

definition example_env :: igor_env where
  "example_env =
     \<lparr>now = 200, pxe_not_exist = (\<lambda>r. True),
      networkSet = (\<lambda>hosts vlan. Some ''switch unreachable''),
      Install = (\<lambda>r. None),
      Power = (\<lambda>hosts on. if on then Some ''ipmi timeout'' else None),
      AutoReboot = True, encode_schedule = None\<rparr>"

text \<open>What one invocation does, in order.\<close>

datatype event =
    DeleteReservation string
  | EmitReservationLog string Reservation
  | NetworkSet "string list" int
  | LogError string
  | BackendInstall Reservation
  | BackendPower "string list" bool
  | ExpireSchedule
  | PutSchedule
  | RunCommand

text \<open>
  Modelled from the spec: \<open>log.Fatal\<close> (package minilog) is not among the source files;
  by the spec a fatal failure aborts the invocation before the subcommand is executed. A
  step returns the events so far and, when it was fatal, the message of \<open>log.Fatal\<close>.
  \<open>deleteReservation\<close> and \<open>expireSchedule\<close>, also absent, appear as events only.
\<close>

type_synonym step = "event list \<times> string option"

text \<open>The body of the loop of \<open>housekeeping\<close> for one reservation.\<close>

definition house_reservation :: "igor_env \<Rightarrow> Reservation \<Rightarrow> step" where
  "house_reservation env r =
     (if EndTime r < now env then ([DeleteReservation (ResName r)], None)
      else if pxe_not_exist env r \<and> StartTime r < now env then
        (let ev1 = [EmitReservationLog ''INSTALL'' r, NetworkSet (Hosts r) (Vlan r)] @
                   (case networkSet env (Hosts r) (Vlan r) of
                      Some err \<Rightarrow> [LogError (''error setting network isolation: '' @ err)]
                    | None \<Rightarrow> [])
         in case Install env r of
              Some err \<Rightarrow> (ev1 @ [BackendInstall r], Some (''unable to install: '' @ err))
            | None \<Rightarrow>
                (if AutoReboot env then
                   (case Power env (Hosts r) False of
                      Some err \<Rightarrow>
                        (ev1 @ [BackendInstall r, BackendPower (Hosts r) False],
                         Some (''unable to power off: '' @ err))
                    | None \<Rightarrow>
                        (case Power env (Hosts r) True of
                           Some err \<Rightarrow>
                             (ev1 @ [BackendInstall r, BackendPower (Hosts r) False,
                                     BackendPower (Hosts r) True],
                              Some (''unable to power on: '' @ err))
                         | None \<Rightarrow>
                             (ev1 @ [BackendInstall r, BackendPower (Hosts r) False,
                                     BackendPower (Hosts r) True], None)))
                 else (ev1 @ [BackendInstall r], None)))
      else ([], None))"

text \<open>
  The loop over the reservations (in the order Go happens to iterate over the map): a
  fatal step ends the process, so the remaining reservations are not visited.
\<close>

fun house_loop :: "igor_env \<Rightarrow> Reservation list \<Rightarrow> step" where
  "house_loop env [] = ([], None)"
| "house_loop env (r # rs) =
     (case house_reservation env r of
        (ev, Some fatal) \<Rightarrow> (ev, Some fatal)
      | (ev, None) \<Rightarrow> (case house_loop env rs of (ev', res) \<Rightarrow> (ev @ ev', res)))"

definition putSchedule :: "igor_env \<Rightarrow> step" where
  "putSchedule env =
     (case encode_schedule env of
        Some err \<Rightarrow> ([PutSchedule], Some (''unable to encode schedule: '' @ err))
      | None \<Rightarrow> ([PutSchedule], None))"

definition housekeeping :: "igor_env \<Rightarrow> Reservation list \<Rightarrow> step" where
  "housekeeping env rs =
     (case house_loop env rs of
        (ev, Some fatal) \<Rightarrow> (ev, Some fatal)
      | (ev, None) \<Rightarrow>
          (case putSchedule env of (ev', res) \<Rightarrow> (ev @ [ExpireSchedule] @ ev', res)))"

text \<open>
  The end of \<open>main\<close>, once both state files are locked and read: the housekeeper, then
  the subcommand.
\<close>

definition igor_main :: "igor_env \<Rightarrow> Reservation list \<Rightarrow> step" where
  "igor_main env rs =
     (case housekeeping env rs of
        (ev, Some fatal) \<Rightarrow> (ev, Some fatal)
      | (ev, None) \<Rightarrow> (ev @ [RunCommand], None))"

section \<open>Stop: the state guard\<close>

text \<open>
  C6, as stated, fails for a VM named \<open>vince\<close>: in state RUNNING, with a QMP peer that
  would accept the command, Stop sends nothing, returns an error and leaves the VM RUNNING.
\<close>

theorem Stop_vince_counterexample:
  "Stop qmp_accept (example_vm\<lparr>Name := ''vince''\<rparr>)
     = (Some VinceIsUnstoppable, example_vm\<lparr>Name := ''vince''\<rparr>) \<and>
   State (example_vm\<lparr>Name := ''vince''\<rparr>) = VM_RUNNING \<and>
   sent (snd (Stop qmp_accept (example_vm\<lparr>Name := ''vince''\<rparr>))) = []"
  by (simp add: Stop_def example_vm_def)

text \<open>
  C6 (amended): for every VM whose name is not \<open>vince\<close>, Stop in state RUNNING sends
  QMP \<open>stop\<close>; on success the state becomes PAUSED and nothing else changes; on failure the
  state becomes ERROR and the error is returned. In any other state Stop fails with the
  not-running error, sends nothing and leaves the VM unchanged. For a VM named \<open>vince\<close>,
  Stop fails in every state, sends nothing and leaves the VM unchanged.
\<close>

theorem Stop_transitions:
  "(Name vm \<noteq> ''vince'' \<and> State vm = VM_RUNNING \<and> q (sent vm) QStop = None \<longrightarrow>
      Stop q vm = (None, vm\<lparr>State := VM_PAUSED, sent := sent vm @ [QStop]\<rparr>)) \<and>
   (Name vm \<noteq> ''vince'' \<and> State vm = VM_RUNNING \<and> q (sent vm) QStop = Some e \<longrightarrow>
      Stop q vm =
        (Some e, vm\<lparr>State := VM_ERROR, error_tag := Some e, sent := sent vm @ [QStop]\<rparr>)) \<and>
   (Name vm \<noteq> ''vince'' \<and> State vm \<noteq> VM_RUNNING \<longrightarrow>
      Stop q vm = (Some (VmNotRunning (Itoa (ID vm))), vm)) \<and>
   (Name vm = ''vince'' \<longrightarrow> Stop q vm = (Some VinceIsUnstoppable, vm))"
  by (simp add: Stop_def qmp_call_def setState_def setError_def)

theorem Stop_transitions_witness:
  "Stop qmp_accept example_vm
     = (None, example_vm\<lparr>State := VM_PAUSED, sent := [QStop]\<rparr>) \<and>
   Stop qmp_refuse example_vm
     = (Some (QmpError ''refused''),
        example_vm\<lparr>State := VM_ERROR, error_tag := Some (QmpError ''refused''),
                   sent := [QStop]\<rparr>) \<and>
   Stop qmp_accept (example_vm\<lparr>State := VM_PAUSED\<rparr>)
     = (Some (VmNotRunning (Itoa 0)), example_vm\<lparr>State := VM_PAUSED\<rparr>)"
proof -
  have "Name example_vm \<noteq> ''vince'' \<and> State example_vm = VM_RUNNING \<and>
        qmp_accept [] QStop = None \<and> sent example_vm = []"
    by (simp add: example_vm_def qmp_accept_def)
  with Stop_transitions [of example_vm qmp_accept]
  have accepted: "Stop qmp_accept example_vm
      = (None, example_vm\<lparr>State := VM_PAUSED, sent := [QStop]\<rparr>)"
    by simp
  have "Name example_vm \<noteq> ''vince'' \<and> State example_vm = VM_RUNNING \<and>
        qmp_refuse [] QStop = Some (QmpError ''refused'') \<and>
        sent example_vm = []"
    by (simp add: example_vm_def qmp_refuse_def)
  with Stop_transitions [of example_vm qmp_refuse "QmpError ''refused''"]
  have refused: "Stop qmp_refuse example_vm
      = (Some (QmpError ''refused''),
         example_vm\<lparr>State := VM_ERROR, error_tag := Some (QmpError ''refused''),
                    sent := [QStop]\<rparr>)"
    by simp
  have "Name (example_vm\<lparr>State := VM_PAUSED\<rparr>) \<noteq> ''vince'' \<and>
        State (example_vm\<lparr>State := VM_PAUSED\<rparr>) \<noteq> VM_RUNNING \<and>
        ID (example_vm\<lparr>State := VM_PAUSED\<rparr>) = 0"
    by (simp add: example_vm_def)
  with Stop_transitions [of "example_vm\<lparr>State := VM_PAUSED\<rparr>" qmp_accept]
  have paused: "Stop qmp_accept (example_vm\<lparr>State := VM_PAUSED\<rparr>)
      = (Some (VmNotRunning (Itoa 0)), example_vm\<lparr>State := VM_PAUSED\<rparr>)"
    by simp
  from accepted refused paused show ?thesis by blast
qed

section \<open>EjectCD\<close>

text \<open>
  C8: EjectCD on a VM whose cdrom is unset fails with an error, sends nothing and changes
  nothing. When a cdrom is set it sends the QMP eject for \<open>ide0-cd1\<close>; the cdrom field
  becomes empty when that call succeeds and keeps its value when the call fails, and in both
  cases the state of the VM is unchanged and the result of the QMP call is returned.
\<close>

theorem EjectCD_cases:
  "(CdromPath vm = '''' \<longrightarrow> EjectCD q vm = (Some NoCdromInserted, vm)) \<and>
   (CdromPath vm \<noteq> '''' \<and> q (sent vm) (QBlockdevEject ''ide0-cd1'') = None \<longrightarrow>
      EjectCD q vm =
        (None, vm\<lparr>CdromPath := '''', sent := sent vm @ [QBlockdevEject ''ide0-cd1'']\<rparr>)) \<and>
   (CdromPath vm \<noteq> '''' \<and> q (sent vm) (QBlockdevEject ''ide0-cd1'') = Some e \<longrightarrow>
      EjectCD q vm = (Some e, vm\<lparr>sent := sent vm @ [QBlockdevEject ''ide0-cd1'']\<rparr>))"
  by (simp add: EjectCD_def ejectCD_def qmp_call_def)

theorem EjectCD_cases_witness:
  "EjectCD qmp_accept example_vm = (Some NoCdromInserted, example_vm) \<and>
   EjectCD qmp_accept (example_vm\<lparr>CdromPath := ''/a.iso''\<rparr>)
     = (None, example_vm\<lparr>CdromPath := '''', sent := [QBlockdevEject ''ide0-cd1'']\<rparr>) \<and>
   EjectCD qmp_refuse (example_vm\<lparr>CdromPath := ''/a.iso''\<rparr>)
     = (Some (QmpError ''refused''),
        example_vm\<lparr>CdromPath := ''/a.iso'', sent := [QBlockdevEject ''ide0-cd1'']\<rparr>)"
proof -
  have "CdromPath example_vm = ''''"
    by (simp add: example_vm_def)
  with EjectCD_cases [of example_vm qmp_accept]
  have unset: "EjectCD qmp_accept example_vm = (Some NoCdromInserted, example_vm)"
    by simp
  have "CdromPath (example_vm\<lparr>CdromPath := ''/a.iso''\<rparr>) \<noteq> '''' \<and>
        qmp_accept [] (QBlockdevEject ''ide0-cd1'') = None \<and>
        sent (example_vm\<lparr>CdromPath := ''/a.iso''\<rparr>) = []"
    by (simp add: example_vm_def qmp_accept_def)
  with EjectCD_cases [of "example_vm\<lparr>CdromPath := ''/a.iso''\<rparr>" qmp_accept]
  have accepted: "EjectCD qmp_accept (example_vm\<lparr>CdromPath := ''/a.iso''\<rparr>)
     = (None, example_vm\<lparr>CdromPath := '''', sent := [QBlockdevEject ''ide0-cd1'']\<rparr>)"
    by simp
  have "CdromPath (example_vm\<lparr>CdromPath := ''/a.iso''\<rparr>) \<noteq> '''' \<and>
        qmp_refuse [] (QBlockdevEject ''ide0-cd1'') = Some (QmpError ''refused'') \<and>
        sent (example_vm\<lparr>CdromPath := ''/a.iso''\<rparr>) = []"
    by (simp add: example_vm_def qmp_refuse_def)
  with EjectCD_cases [of "example_vm\<lparr>CdromPath := ''/a.iso''\<rparr>" qmp_refuse
      "QmpError ''refused''"]
  have refused: "EjectCD qmp_refuse (example_vm\<lparr>CdromPath := ''/a.iso''\<rparr>)
     = (Some (QmpError ''refused''),
        example_vm\<lparr>CdromPath := ''/a.iso'', sent := [QBlockdevEject ''ide0-cd1'']\<rparr>)"
    by simp
  from unset accepted refused show ?thesis by blast
qed

section \<open>QueryMigrate: progress of a migration\<close>

text \<open>
  C1, as stated, fails twice. For a reply with status \<open>completed\<close> the code returns the
  constant 100, not 1. For a reply with status \<open>active\<close> the quotient is returned as it
  is, so a reply whose \<open>transferred\<close> exceeds its \<open>total\<close> (QEMU counts pages sent again)
  gives a value above 1.
\<close>

theorem QueryMigrate_range_counterexample:
  "QueryMigrate (Inr [(''status'', JString ''completed'')]) = Returns (''completed'', 100, None) \<and>
   QueryMigrate (Inr [(''status'', JString ''completed'')]) \<noteq> Returns (''completed'', 1, None) \<and>
   QueryMigrate (Inr [(''status'', JString ''active''),
       (''ram'', JObject [(''transferred'', JNumber 3), (''total'', JNumber 2)])])
     = Returns (''active'', 3 / 2, None) \<and>
   \<not> (3 / 2 \<le> (1::real))"
  by (simp add: QueryMigrate_def migrate_progress_def index_map_def)

text \<open>
  C1 (amended): for a reply with status \<open>completed\<close>, QueryMigrate returns that status
  and no error (the value returned with it is left open); status \<open>failed\<close> yields 0; status
  \<open>active\<close> with a \<open>ram\<close> object holding numbers \<open>total\<close> and \<open>transferred\<close>
  yields the error for a zero total when \<open>total\<close> is 0 and \<open>transferred / total\<close>
  otherwise, which lies in the interval from 0 to 1 when \<open>0 \<le> transferred \<le> total\<close>.
\<close>

theorem QueryMigrate_cases:
  "(map_of r ''status'' = Some (JString ''completed'') \<longrightarrow>
      (\<exists>c. QueryMigrate (Inr r) = Returns (''completed'', c, None))) \<and>
   (map_of r ''status'' = Some (JString ''failed'') \<longrightarrow>
      QueryMigrate (Inr r) = Returns (''failed'', 0, None)) \<and>
   (map_of r ''status'' = Some (JString ''active'') \<and> map_of r ''ram'' = Some (JObject ram) \<and>
    map_of ram ''total'' = Some (JNumber t) \<and> map_of ram ''transferred'' = Some (JNumber x) \<longrightarrow>
      (t = 0 \<longrightarrow> QueryMigrate (Inr r) = Returns (''active'', 0, Some ZeroTotalRam)) \<and>
      (t \<noteq> 0 \<longrightarrow> QueryMigrate (Inr r) = Returns (''active'', x / t, None)) \<and>
      (0 \<le> x \<and> x \<le> t \<and> 0 < t \<longrightarrow>
         (\<exists>c. QueryMigrate (Inr r) = Returns (''active'', c, None) \<and> 0 \<le> c \<and> c \<le> 1)))"
  by (simp add: QueryMigrate_def migrate_progress_def index_map_def)

theorem QueryMigrate_cases_witness:
  "(\<exists>c. QueryMigrate (Inr [(''status'', JString ''completed'')])
      = Returns (''completed'', c, None)) \<and>
   QueryMigrate (Inr [(''status'', JString ''failed'')]) = Returns (''failed'', 0, None) \<and>
   QueryMigrate (Inr [(''status'', JString ''active''),
       (''ram'', JObject [(''transferred'', JNumber 1), (''total'', JNumber 4)])])
     = Returns (''active'', 1 / 4, None) \<and>
   (\<exists>c. QueryMigrate (Inr [(''status'', JString ''active''),
       (''ram'', JObject [(''transferred'', JNumber 1), (''total'', JNumber 4)])])
     = Returns (''active'', c, None) \<and> 0 \<le> c \<and> c \<le> 1) \<and>
   QueryMigrate (Inr [(''status'', JString ''active''),
       (''ram'', JObject [(''transferred'', JNumber 1), (''total'', JNumber 0)])])
     = Returns (''active'', 0, Some ZeroTotalRam)"
proof -
  have num: "(4::real) \<noteq> 0" "(0::real) \<le> 1 \<and> (1::real) \<le> 4 \<and> (0::real) < 4"
    by simp_all
  have "map_of [(''status'', JString ''completed'')] ''status'' = Some (JString ''completed'')"
    by simp
  with QueryMigrate_cases [of "[(''status'', JString ''completed'')]"]
  have completed: "\<exists>c. QueryMigrate (Inr [(''status'', JString ''completed'')])
      = Returns (''completed'', c, None)"
    by blast
  have "map_of [(''status'', JString ''failed'')] ''status'' = Some (JString ''failed'')"
    by simp
  with QueryMigrate_cases [of "[(''status'', JString ''failed'')]"]
  have failed: "QueryMigrate (Inr [(''status'', JString ''failed'')])
      = Returns (''failed'', 0, None)"
    by blast
  have "map_of [(''status'', JString ''active''),
       (''ram'', JObject [(''transferred'', JNumber 1), (''total'', JNumber 4)])] ''status''
      = Some (JString ''active'') \<and>
    map_of [(''status'', JString ''active''),
       (''ram'', JObject [(''transferred'', JNumber 1), (''total'', JNumber 4)])] ''ram''
      = Some (JObject [(''transferred'', JNumber 1), (''total'', JNumber 4)]) \<and>
    map_of [(''transferred'', JNumber 1), (''total'', JNumber 4)] ''total'' = Some (JNumber 4) \<and>
    map_of [(''transferred'', JNumber 1), (''total'', JNumber 4)] ''transferred''
      = Some (JNumber 1)"
    by simp
  with num QueryMigrate_cases [of "[(''status'', JString ''active''),
       (''ram'', JObject [(''transferred'', JNumber 1), (''total'', JNumber 4)])]"
       "[(''transferred'', JNumber 1), (''total'', JNumber 4)]" 4 1]
  have active: "QueryMigrate (Inr [(''status'', JString ''active''),
       (''ram'', JObject [(''transferred'', JNumber 1), (''total'', JNumber 4)])])
     = Returns (''active'', 1 / 4, None) \<and>
   (\<exists>c. QueryMigrate (Inr [(''status'', JString ''active''),
       (''ram'', JObject [(''transferred'', JNumber 1), (''total'', JNumber 4)])])
     = Returns (''active'', c, None) \<and> 0 \<le> c \<and> c \<le> 1)"
    by blast
  have "map_of [(''status'', JString ''active''),
       (''ram'', JObject [(''transferred'', JNumber 1), (''total'', JNumber 0)])] ''status''
      = Some (JString ''active'') \<and>
    map_of [(''status'', JString ''active''),
       (''ram'', JObject [(''transferred'', JNumber 1), (''total'', JNumber 0)])] ''ram''
      = Some (JObject [(''transferred'', JNumber 1), (''total'', JNumber 0)]) \<and>
    map_of [(''transferred'', JNumber 1), (''total'', JNumber 0)] ''total'' = Some (JNumber 0) \<and>
    map_of [(''transferred'', JNumber 1), (''total'', JNumber 0)] ''transferred''
      = Some (JNumber 1)"
    by simp
  with QueryMigrate_cases [of "[(''status'', JString ''active''),
       (''ram'', JObject [(''transferred'', JNumber 1), (''total'', JNumber 0)])]"
       "[(''transferred'', JNumber 1), (''total'', JNumber 0)]" 0 1]
  have zero: "QueryMigrate (Inr [(''status'', JString ''active''),
       (''ram'', JObject [(''transferred'', JNumber 1), (''total'', JNumber 0)])])
     = Returns (''active'', 0, Some ZeroTotalRam)"
    by blast
  from completed failed active zero show ?thesis by blast
qed

text \<open>
  C10: a reply whose status is a string other than \<open>completed\<close>, \<open>failed\<close> and
  \<open>active\<close> leaves the \<open>switch\<close> with the map \<open>ram\<close> still nil; the next statement
  asserts that its entry \<open>total\<close> is a \<open>float64\<close>, which panics. QueryMigrate returns
  neither a value nor an error for such a reply.
\<close>

theorem QueryMigrate_unknown_status_panics:
  "map_of r ''status'' = Some (JString status) \<Longrightarrow>
   status \<noteq> ''completed'' \<Longrightarrow> status \<noteq> ''failed'' \<Longrightarrow> status \<noteq> ''active'' \<Longrightarrow>
   QueryMigrate (Inr r) = migrate_progress status None \<and>
   index_map None ''total'' = None \<and>
   QueryMigrate (Inr r) = Panics TotalIsFloat"
  by (simp add: QueryMigrate_def migrate_progress_def index_map_def)

theorem QueryMigrate_unknown_status_panics_witness:
  "QueryMigrate (Inr [(''status'', JString ''setup'')]) = Panics TotalIsFloat \<and>
   QueryMigrate (Inr [(''status'', JString ''cancelled''), (''ram'', JObject [])])
     = Panics TotalIsFloat"
proof -
  have "QueryMigrate (Inr [(''status'', JString ''setup'')])
          = migrate_progress ''setup'' None \<and>
        index_map None ''total'' = None \<and>
        QueryMigrate (Inr [(''status'', JString ''setup'')]) = Panics TotalIsFloat"
    by (rule QueryMigrate_unknown_status_panics) simp_all
  moreover
  have "QueryMigrate (Inr [(''status'', JString ''cancelled''), (''ram'', JObject [])])
          = migrate_progress ''cancelled'' None \<and>
        index_map None ''total'' = None \<and>
        QueryMigrate (Inr [(''status'', JString ''cancelled''), (''ram'', JObject [])])
          = Panics TotalIsFloat"
    by (rule QueryMigrate_unknown_status_panics) simp_all
  ultimately show ?thesis by blast
qed

section \<open>Copy: which sequences are duplicated\<close>

lemma Copy_fields:
  "fst (Copy old h) =
     old\<lparr>DiskPaths := \<lparr>Data = next_array h, Len = Len (DiskPaths old)\<rparr>,
         QemuAppend := \<lparr>Data = Suc (next_array h), Len = Len (QemuAppend old)\<rparr>\<rparr>"
  by (simp add: Copy_def make_strings_def copy_strings_def Let_def)

lemma Copy_store:
  "Data (DiskPaths old) < next_array h \<Longrightarrow> Data (QemuAppend old) < next_array h \<Longrightarrow>
   snd (Copy old h) =
     h\<lparr>string_arrays := (string_arrays h)
          (next_array h := take (Len (DiskPaths old)) (string_arrays h (Data (DiskPaths old))),
           Suc (next_array h) :=
             take (Len (QemuAppend old)) (string_arrays h (Data (QemuAppend old)))),
       next_array := Suc (Suc (next_array h))\<rparr>"
  by (simp add: Copy_def make_strings_def copy_strings_def Let_def)

text \<open>
  The two sequences that \<open>Copy\<close> duplicates: when the arrays of the original lie in the
  allocated part of the store, a later write through the original's \<open>DiskPaths\<close> or
  \<open>QemuAppend\<close> leaves the copy's sequence as it was.
\<close>

lemma Copy_duplicates_disks:
  assumes "Data (DiskPaths old) < next_array h" and "Data (QemuAppend old) < next_array h"
      and "set_string (DiskPaths old) i v (snd (Copy old h)) = Some h'"
  shows "strings_of h' (DiskPaths (fst (Copy old h))) = strings_of h (DiskPaths old)"
  using assms
  by (auto simp: Copy_fields Copy_store set_string_def strings_of_def split: if_splits)

lemma Copy_duplicates_qemu_append:
  assumes "Data (DiskPaths old) < next_array h" and "Data (QemuAppend old) < next_array h"
      and "set_string (QemuAppend old) i v (snd (Copy old h)) = Some h'"
  shows "strings_of h' (QemuAppend (fst (Copy old h))) = strings_of h (QemuAppend old)"
  using assms
  by (auto simp: Copy_fields Copy_store set_string_def strings_of_def split: if_splits)

text \<open>
  C2 at a failing input: the example configuration is copied, then the first kernel append
  token and the first override of the original are overwritten. The copy's kernel append
  tokens and overrides change with them, because \<open>Copy\<close> leaves \<open>Append\<close> and
  \<open>QemuOverride\<close> pointing at the arrays of the original; the same write to the
  original's disks leaves the copy's disks alone.
\<close>

theorem Copy_aliases_append_and_overrides:
  "strings_of (snd (Copy example_config example_store))
       (Append (fst (Copy example_config example_store))) = [''root=/dev/sda''] \<and>
   map_option (\<lambda>h'. strings_of h' (Append (fst (Copy example_config example_store))))
       (set_string (Append example_config) 0 ''quiet'' (snd (Copy example_config example_store)))
     = Some [''quiet''] \<and>
   overrides_of (snd (Copy example_config example_store))
       (QemuOverride (fst (Copy example_config example_store)))
     = [\<lparr>Match = ''-vga std'', Repl = ''-vga qxl''\<rparr>] \<and>
   map_option (\<lambda>h'. overrides_of h' (QemuOverride (fst (Copy example_config example_store))))
       (set_override (QemuOverride example_config) 0 \<lparr>Match = ''-m'', Repl = ''-M''\<rparr>
          (snd (Copy example_config example_store)))
     = Some [\<lparr>Match = ''-m'', Repl = ''-M''\<rparr>] \<and>
   map_option (\<lambda>h'. strings_of h' (DiskPaths (fst (Copy example_config example_store))))
       (set_string (DiskPaths example_config) 0 ''/other.img''
          (snd (Copy example_config example_store)))
     = Some [''/disk.img'']"
  by (simp add: Copy_def make_strings_def copy_strings_def Let_def example_config_def
      example_store_def set_string_def set_override_def strings_of_def overrides_of_def)

section \<open>Hotplug: the ids of the table\<close>

lemma fold_id_ge: "a \<le> fold (\<lambda>k n. if k \<ge> n then k + 1 else n) ks (a::int)"
proof (induction ks arbitrary: a)
  case Nil
  then show ?case by simp
next
  case (Cons x xs)
  have "a \<le> (if x \<ge> a then x + 1 else a)" by simp
  also have "\<dots> \<le> fold (\<lambda>k n. if k \<ge> n then k + 1 else n) xs (if x \<ge> a then x + 1 else a)"
    by (rule Cons.IH)
  finally show ?case by simp
qed

lemma fold_id_gt: "k \<in> set ks \<Longrightarrow> k < fold (\<lambda>k n. if k \<ge> n then k + 1 else n) ks (a::int)"
proof (induction ks arbitrary: a)
  case Nil
  then show ?case by simp
next
  case (Cons x xs)
  show ?case
  proof (cases "k = x")
    case True
    have "(if x \<ge> a then x + 1 else a)
            \<le> fold (\<lambda>k n. if k \<ge> n then k + 1 else n) xs (if x \<ge> a then x + 1 else a)"
      by (rule fold_id_ge)
    with True show ?thesis by (auto split: if_splits)
  next
    case False
    with Cons.prems have "k \<in> set xs" by simp
    from Cons.IH [OF this] show ?thesis by simp
  qed
qed

lemma hotplug_id_gt: "k \<in> fst ` set tbl \<Longrightarrow> k < hotplug_id tbl"
  unfolding hotplug_id_def by (rule fold_id_gt) simp

lemma hotplug_id_nonneg: "0 \<le> hotplug_id tbl"
  unfolding hotplug_id_def by (rule fold_id_ge)

lemma hotplug_on_ok:
  "hotplug_on q f version bus vm = (None, vm') \<Longrightarrow>
   hotplug vm' =
     AList.update (hotplug_id (hotplug vm)) \<lparr>Disk = f, Version = version\<rparr> (hotplug vm)"
  by (auto simp: hotplug_on_def qmp_call_def Let_def split: option.splits prod.splits)

lemma Hotplug_table:
  assumes "fst (Hotplug q f version vm) = None"
  shows "map_of (hotplug (snd (Hotplug q f version vm))) =
     (map_of (hotplug vm))(hotplug_id (hotplug vm) \<mapsto>
        \<lparr>Disk = f, Version = (if version = '''' then ''1.1'' else version)\<rparr>)"
proof -
  obtain vm' where "Hotplug q f version vm = (None, vm')"
    using assms by (cases "Hotplug q f version vm") auto
  then show ?thesis
    by (auto simp: Hotplug_def update_conv' dest!: hotplug_on_ok split: if_splits)
qed

lemma run_hotplug_ops_fresh:
  "(n, ks) \<in> set (fst (run_hotplug_ops q ops vm)) \<Longrightarrow> k \<in> set ks \<Longrightarrow> k < n"
proof (induction ops arbitrary: vm)
  case Nil
  then show ?case by simp
next
  case (Cons op ops)
  show ?case
  proof (cases op)
    case (DoHotplug f version)
    obtain eo vm' where h: "Hotplug q f version vm = (eo, vm')"
      by (cases "Hotplug q f version vm")
    show ?thesis
    proof (cases eo)
      case None
      obtain assigned vm'' where r: "run_hotplug_ops q ops vm' = (assigned, vm'')"
        by (cases "run_hotplug_ops q ops vm'")
      from Cons.prems(1) DoHotplug h None r
      have "(n, ks) = (hotplug_id (hotplug vm), map fst (hotplug vm)) \<or>
            (n, ks) \<in> set (fst (run_hotplug_ops q ops vm'))"
        by simp
      then show ?thesis
      proof
        assume "(n, ks) = (hotplug_id (hotplug vm), map fst (hotplug vm))"
        with Cons.prems(2) show ?thesis by (simp add: hotplug_id_gt)
      next
        assume "(n, ks) \<in> set (fst (run_hotplug_ops q ops vm'))"
        from Cons.IH [OF this Cons.prems(2)] show ?thesis .
      qed
    next
      case (Some e)
      with Cons.prems(1) DoHotplug h
      have "(n, ks) \<in> set (fst (run_hotplug_ops q ops vm'))" by simp
      from Cons.IH [OF this Cons.prems(2)] show ?thesis .
    qed
  next
    case (DoHotplugRemove i)
    with Cons.prems(1)
    have "(n, ks) \<in> set (fst (run_hotplug_ops q ops (snd (HotplugRemove q i vm))))" by simp
    from Cons.IH [OF this Cons.prems(2)] show ?thesis .
  qed
qed

text \<open>
  C7, as stated, fails: the id is computed from the keys now in the table, so an id that
  HotplugRemove has released is handed out again. Two Hotplugs, the removal of id 1 and a
  third Hotplug assign the ids 0, 1 and 1: the third is not greater than the second.
\<close>

theorem Hotplug_reuses_id_counterexample:
  "map fst (fst (run_hotplug_ops qmp_accept
      [DoHotplug ''/a.img'' '''', DoHotplug ''/b.img'' ''2.0'', DoHotplugRemove 1,
       DoHotplug ''/c.img'' ''1.1''] example_vm)) = [0, 1, 1] \<and>
   \<not> (1::int) < 1"
  by (simp add: example_vm_def qmp_accept_def Hotplug_def hotplug_on_def hotplug_id_def
      HotplugRemove_def hotplugRemove_def qmp_call_def Let_def)

text \<open>
  C7 (amended): for every sequence of Hotplug and HotplugRemove operations on a VM, every id
  assigned by a successful Hotplug is strictly greater than every id that is in the hotplug
  table when that Hotplug is called; it is not negative, it is not a key of the table, and
  the Hotplug adds exactly the entry for it. (An id removed earlier may be assigned again.)
\<close>

theorem Hotplug_id_exceeds_table:
  "(\<forall>(n, ks) \<in> set (fst (run_hotplug_ops q ops vm)). \<forall>k \<in> set ks. k < n) \<and>
   (\<forall>k \<in> fst ` set (hotplug vm). k < hotplug_id (hotplug vm)) \<and>
   0 \<le> hotplug_id (hotplug vm) \<and>
   map_of (hotplug vm) (hotplug_id (hotplug vm)) = None \<and>
   (fst (Hotplug q f version vm) = None \<longrightarrow>
      map_of (hotplug (snd (Hotplug q f version vm))) =
        (map_of (hotplug vm))(hotplug_id (hotplug vm) \<mapsto>
           \<lparr>Disk = f, Version = (if version = '''' then ''1.1'' else version)\<rparr>))"
proof (intro conjI)
  show "\<forall>(n, ks) \<in> set (fst (run_hotplug_ops q ops vm)). \<forall>k \<in> set ks. k < n"
    using run_hotplug_ops_fresh by blast
  show "\<forall>k \<in> fst ` set (hotplug vm). k < hotplug_id (hotplug vm)"
    by (simp add: hotplug_id_gt)
  show "0 \<le> hotplug_id (hotplug vm)"
    by (rule hotplug_id_nonneg)
  show "map_of (hotplug vm) (hotplug_id (hotplug vm)) = None"
    using hotplug_id_gt [of "hotplug_id (hotplug vm)" "hotplug vm"]
    by (auto simp: map_of_eq_None_iff)
  show "fst (Hotplug q f version vm) = None \<longrightarrow>
      map_of (hotplug (snd (Hotplug q f version vm))) =
        (map_of (hotplug vm))(hotplug_id (hotplug vm) \<mapsto>
           \<lparr>Disk = f, Version = (if version = '''' then ''1.1'' else version)\<rparr>)"
    by (simp add: Hotplug_table)
qed

theorem Hotplug_id_exceeds_table_witness:
  "fst (run_hotplug_ops qmp_accept
      [DoHotplug ''/a.img'' '''', DoHotplug ''/b.img'' ''2.0'', DoHotplugRemove 1,
       DoHotplug ''/c.img'' ''1.1''] example_vm) = [(0, []), (1, [0]), (1, [0])] \<and>
   (0::int) < 1 \<and>
   fst (Hotplug qmp_accept ''/a.img'' '''' example_vm) = None \<and>
   map_of (hotplug (snd (Hotplug qmp_accept ''/a.img'' '''' example_vm))) 0
     = Some \<lparr>Disk = ''/a.img'', Version = ''1.1''\<rparr>"
proof -
  have run: "fst (run_hotplug_ops qmp_accept
      [DoHotplug ''/a.img'' '''', DoHotplug ''/b.img'' ''2.0'', DoHotplugRemove 1,
       DoHotplug ''/c.img'' ''1.1''] example_vm) = [(0, []), (1, [0]), (1, [0])]"
    by (simp add: example_vm_def qmp_accept_def Hotplug_def hotplug_on_def hotplug_id_def
        HotplugRemove_def hotplugRemove_def qmp_call_def Let_def)
  have ok: "fst (Hotplug qmp_accept ''/a.img'' '''' example_vm) = None"
    by (simp add: example_vm_def qmp_accept_def Hotplug_def hotplug_on_def hotplug_id_def
        qmp_call_def Let_def)
  have empty: "hotplug example_vm = []" "hotplug_id [] = 0"
    by (simp_all add: example_vm_def hotplug_id_def)
  note inst = Hotplug_id_exceeds_table [of qmp_accept
      "[DoHotplug ''/a.img'' '''', DoHotplug ''/b.img'' ''2.0'', DoHotplugRemove 1,
        DoHotplug ''/c.img'' ''1.1'']" example_vm "''/a.img''" "''''"]
  from inst run have less: "(0::int) < 1" by simp
  from inst ok empty
  have "map_of (hotplug (snd (Hotplug qmp_accept ''/a.img'' '''' example_vm))) 0
     = Some \<lparr>Disk = ''/a.img'', Version = ''1.1''\<rparr>"
    by simp
  with run less ok show ?thesis by blast
qed

section \<open>The housekeeper: which failures are fatal\<close>

lemma house_loop_fatal:
  "r \<in> set rs \<Longrightarrow> snd (house_reservation env r) \<noteq> None \<Longrightarrow> snd (house_loop env rs) \<noteq> None"
proof (induction rs)
  case Nil
  then show ?case by simp
next
  case (Cons x xs)
  obtain ev res where x: "house_reservation env x = (ev, res)"
    by (cases "house_reservation env x")
  show ?case
  proof (cases res)
    case (Some fatal)
    with x show ?thesis by simp
  next
    case None
    with x Cons.prems have "r \<in> set xs" by auto
    from Cons.IH [OF this Cons.prems(2)] x None show ?thesis
      by (cases "house_loop env xs") auto
  qed
qed

lemma igor_main_fatal:
  "snd (house_loop env rs) \<noteq> None \<Longrightarrow> igor_main env rs = house_loop env rs"
  by (auto simp: igor_main_def housekeeping_def split: prod.splits option.splits)

lemma house_reservation_no_run: "RunCommand \<notin> set (fst (house_reservation env r))"
  by (simp add: house_reservation_def Let_def split: option.splits)

lemma house_loop_no_run: "RunCommand \<notin> set (fst (house_loop env rs))"
proof (induction rs)
  case Nil
  then show ?case by simp
next
  case (Cons x xs)
  then show ?case using house_reservation_no_run [of env x]
    by (auto split: prod.splits option.splits)
qed

text \<open>
  C9: take a reservation of the table whose start time has passed and whose PXE file does
  not exist, and which has not expired (the install branch is the \<open>else\<close> of the expiry
  test, so only then are the collaborators called and can fail). If the VLAN isolation call
  fails, the error is logged and the housekeeper goes on to the install, with the outcome it
  would have had with a successful call. If the install fails, or AutoReboot is set and
  power-off or power-on fails, the step is fatal: the housekeeper and the invocation end
  there and the subcommand is not run.
\<close>

theorem housekeeping_failures:
  assumes "r \<in> set rs" and "StartTime r < now env" and "pxe_not_exist env r"
      and "\<not> EndTime r < now env"
  shows
   "(networkSet env (Hosts r) (Vlan r) \<noteq> None \<longrightarrow>
       (\<exists>msg. LogError msg \<in> set (fst (house_reservation env r))) \<and>
       BackendInstall r \<in> set (fst (house_reservation env r)) \<and>
       snd (house_reservation env r) =
         snd (house_reservation (env\<lparr>networkSet := \<lambda>hosts vlan. None\<rparr>) r)) \<and>
    (Install env r \<noteq> None \<or>
     AutoReboot env \<and> (Power env (Hosts r) False \<noteq> None \<or> Power env (Hosts r) True \<noteq> None) \<longrightarrow>
       snd (house_reservation env r) \<noteq> None \<and>
       snd (housekeeping env rs) \<noteq> None \<and>
       snd (igor_main env rs) \<noteq> None \<and>
       RunCommand \<notin> set (fst (igor_main env rs)))"
proof (intro conjI impI)
  assume n: "networkSet env (Hosts r) (Vlan r) \<noteq> None"
  from n assms show "\<exists>msg. LogError msg \<in> set (fst (house_reservation env r))"
    by (auto simp: house_reservation_def Let_def split: option.splits)
  from n assms show "BackendInstall r \<in> set (fst (house_reservation env r))"
    by (auto simp: house_reservation_def Let_def split: option.splits)
  from n assms show "snd (house_reservation env r) =
         snd (house_reservation (env\<lparr>networkSet := \<lambda>hosts vlan. None\<rparr>) r)"
    by (auto simp: house_reservation_def Let_def split: option.splits)
next
  assume f: "Install env r \<noteq> None \<or>
     AutoReboot env \<and> (Power env (Hosts r) False \<noteq> None \<or> Power env (Hosts r) True \<noteq> None)"
  with assms show 1: "snd (house_reservation env r) \<noteq> None"
    by (auto simp: house_reservation_def Let_def split: option.splits)
  from house_loop_fatal [OF assms(1) 1] have 2: "snd (house_loop env rs) \<noteq> None" .
  then show "snd (housekeeping env rs) \<noteq> None"
    by (auto simp: housekeeping_def split: prod.splits option.splits)
  from 2 show "snd (igor_main env rs) \<noteq> None" by (simp add: igor_main_fatal)
  from 2 show "RunCommand \<notin> set (fst (igor_main env rs))"
    by (simp add: igor_main_fatal house_loop_no_run)
qed

theorem housekeeping_failures_witness:
  "igor_main example_env [example_reservation] =
     ([EmitReservationLog ''INSTALL'' example_reservation, NetworkSet [''kn1'', ''kn2''] 101,
       LogError ''error setting network isolation: switch unreachable'',
       BackendInstall example_reservation, BackendPower [''kn1'', ''kn2''] False,
       BackendPower [''kn1'', ''kn2''] True],
      Some ''unable to power on: ipmi timeout'') \<and>
   snd (house_reservation example_env example_reservation) \<noteq> None \<and>
   snd (igor_main example_env [example_reservation]) \<noteq> None \<and>
   RunCommand \<notin> set (fst (igor_main example_env [example_reservation])) \<and>
   BackendInstall example_reservation
     \<in> set (fst (house_reservation example_env example_reservation))"
proof -
  have run: "igor_main example_env [example_reservation] =
     ([EmitReservationLog ''INSTALL'' example_reservation, NetworkSet [''kn1'', ''kn2''] 101,
       LogError ''error setting network isolation: switch unreachable'',
       BackendInstall example_reservation, BackendPower [''kn1'', ''kn2''] False,
       BackendPower [''kn1'', ''kn2''] True],
      Some ''unable to power on: ipmi timeout'')"
    by (simp add: igor_main_def housekeeping_def house_reservation_def example_env_def
        example_reservation_def Let_def)
  have pre: "example_reservation \<in> set [example_reservation]"
      "StartTime example_reservation < now example_env"
      "pxe_not_exist example_env example_reservation"
      "\<not> EndTime example_reservation < now example_env"
    by (simp_all add: example_env_def example_reservation_def)
  have fails: "networkSet example_env (Hosts example_reservation) (Vlan example_reservation)
        \<noteq> None"
      "AutoReboot example_env"
      "Power example_env (Hosts example_reservation) True \<noteq> None"
    by (simp_all add: example_env_def example_reservation_def)
  from housekeeping_failures [OF pre] fails
  have "snd (house_reservation example_env example_reservation) \<noteq> None \<and>
        snd (igor_main example_env [example_reservation]) \<noteq> None \<and>
        RunCommand \<notin> set (fst (igor_main example_env [example_reservation])) \<and>
        BackendInstall example_reservation
          \<in> set (fst (house_reservation example_env example_reservation))"
    by blast
  with run show ?thesis by blast
qed

section \<open>The PCI layout: devices, bridges and NICs of the vector\<close>

lemma digit_table:
  "list_all (\<lambda>n. digit_val (digit_char n) = n \<and> is_hex_digit (digit_char n) \<and>
                  (n < 10 \<longrightarrow> is_digit (digit_char n))) [0..<16]"
  by code_simp

lemma digit_val_char:
  assumes "n < 16"
  shows "digit_val (digit_char n) = n"
proof -
  from assms have "n \<in> set [0..<16]" by simp
  with digit_table show ?thesis unfolding list_all_iff by blast
qed

lemma digit_char_hex:
  assumes "n < 16"
  shows "is_hex_digit (digit_char n)"
proof -
  from assms have "n \<in> set [0..<16]" by simp
  with digit_table show ?thesis unfolding list_all_iff by blast
qed

lemma digit_char_dec:
  assumes "n < 10"
  shows "is_digit (digit_char n)"
proof -
  from assms have "n \<in> set [0..<16]" by simp
  with digit_table assms show ?thesis unfolding list_all_iff by blast
qed

lemma from_base_snoc: "from_base b (s @ [c]) = from_base b s * b + digit_val c"
  by (simp add: from_base_def)

lemma from_base_to_base: "2 \<le> b \<Longrightarrow> b \<le> 16 \<Longrightarrow> from_base b (to_base b n) = n"
proof (induction b n rule: to_base.induct)
  case (1 b n)
  show ?case
  proof (cases "n < b")
    case True
    with 1 show ?thesis
      by (subst to_base.simps) (simp add: from_base_def digit_val_char)
  next
    case False
    with 1 have "from_base b (to_base b (n div b)) = n div b" by simp
    moreover have "n mod b < b" using 1(2) by simp
    then have "n mod b < 16" using 1(3) by linarith
    ultimately show ?thesis using False 1(2)
      by (subst to_base.simps) (simp add: from_base_snoc digit_val_char)
  qed
qed

lemma to_base_nonempty: "to_base b n \<noteq> []"
  by (subst to_base.simps) simp

lemma to_base_hex: "list_all is_hex_digit (to_base 16 n)"
proof (induction "16::nat" n rule: to_base.induct)
  case (1 n)
  show ?case
  proof (cases "n < 16")
    case True
    then show ?thesis by (subst to_base.simps) (simp add: digit_char_hex)
  next
    case False
    with 1 show ?thesis by (subst to_base.simps) (simp add: digit_char_hex)
  qed
qed

lemma to_base_dec: "list_all is_digit (to_base 10 n)"
proof (induction "10::nat" n rule: to_base.induct)
  case (1 n)
  show ?case
  proof (cases "n < 10")
    case True
    then show ?thesis by (subst to_base.simps) (simp add: digit_char_dec)
  next
    case False
    with 1 show ?thesis by (subst to_base.simps) (simp add: digit_char_dec)
  qed
qed

lemma hex_digits: "\<forall>c \<in> set (rev (hex a)). is_hex_digit c" "rev (hex a) \<noteq> []"
  using to_base_hex [of a] by (simp_all add: hex_def to_base_nonempty list_all_iff)

lemma dec_digits: "\<forall>c \<in> set (rev (dec b)). is_digit c" "rev (dec b) \<noteq> []"
  using to_base_dec [of b] by (simp_all add: dec_def to_base_nonempty list_all_iff)

lemma from_base_dec: "from_base 10 (dec n) = n"
  by (simp add: dec_def from_base_to_base)

lemma from_base_hex: "from_base 16 (hex n) = n"
  by (simp add: hex_def from_base_to_base)

lemma takeWhile_run: "\<forall>c \<in> set xs. P c \<Longrightarrow> \<not> P y \<Longrightarrow> takeWhile P (xs @ y # ys) = xs"
  by (simp add: takeWhile_append2)

lemma dropWhile_run: "\<forall>c \<in> set xs. P c \<Longrightarrow> \<not> P y \<Longrightarrow> dropWhile P (xs @ y # ys) = y # ys"
  by (simp add: dropWhile_append2)

lemma not_hex_digit [simp]:
  "\<not> is_hex_digit CHR ''x''" "\<not> is_hex_digit CHR ''=''" "\<not> is_hex_digit CHR ''l''"
  by (simp_all add: is_hex_digit_def)

lemma not_digit [simp]: "\<not> is_digit CHR ''.''"
  by (simp add: is_digit_def)

lemma digit_is_hex: "is_digit c \<Longrightarrow> is_hex_digit c"
  by (auto simp: is_digit_def is_hex_digit_def)

lemma pci_slot_render:
  "pci_slot (pre @ '',bus=pci.'' @ dec b @ '',addr=0x'' @ hex a) = Some (b, a)"
proof -
  let ?h = "rev (hex a)" and ?d = "rev (dec b)"
  let ?r1 = "CHR ''x'' # ''0=rdda,'' @ ?d @ CHR ''.'' # ''icp=sub,'' @ rev pre"
  let ?r2 = "CHR ''.'' # ''icp=sub,'' @ rev pre"
  have r: "rev (pre @ '',bus=pci.'' @ dec b @ '',addr=0x'' @ hex a) = ?h @ ?r1"
    by simp
  have tw1: "takeWhile is_hex_digit (?h @ ?r1) = ?h"
    by (rule takeWhile_run [OF hex_digits(1)]) simp
  have dw1: "dropWhile is_hex_digit (?h @ ?r1) = ?r1"
    by (rule dropWhile_run [OF hex_digits(1)]) simp
  have d8: "drop 8 ?r1 = ?d @ ?r2" "take 8 ?r1 = rev '',addr=0x''"
    by simp_all
  have tw2: "takeWhile is_digit (?d @ ?r2) = ?d"
    by (rule takeWhile_run [OF dec_digits(1)]) simp
  have dw2: "dropWhile is_digit (?d @ ?r2) = ?r2"
    by (rule dropWhile_run [OF dec_digits(1)]) simp
  have t9: "take 9 ?r2 = rev '',bus=pci.''"
    by simp
  have "pci_slot (pre @ '',bus=pci.'' @ dec b @ '',addr=0x'' @ hex a)
      = Some (from_base 10 (rev ?d), from_base 16 (rev ?h))"
    unfolding pci_slot_def Let_def r tw1 dw1 d8 tw2 dw2 t9
    using hex_digits(2) [of a] dec_digits(2) [of b] by simp
  then show ?thesis
    by (simp add: from_base_dec from_base_hex)
qed

lemma pci_slot_nic:
  "pci_slot (''driver='' @ d @ '',netdev='' @ t @ '',mac='' @ m @ '',bus=pci.'' @ dec b @
      '',addr=0x'' @ hex a) = Some (b, a)"
  using pci_slot_render [of "''driver='' @ d @ '',netdev='' @ t @ '',mac='' @ m" b a]
  by simp

lemma pci_slot_virtio:
  "pci_slot (''virtio-serial-pci,id=virtio-serial'' @ s @ '',bus=pci.'' @ dec b @
      '',addr=0x'' @ hex a) = Some (b, a)"
  using pci_slot_render [of "''virtio-serial-pci,id=virtio-serial'' @ s" b a]
  by simp

lemma pci_slot_no_x:
  assumes "\<forall>c \<in> set ds. is_hex_digit c" and "\<not> is_hex_digit y" and "y \<noteq> CHR ''x''"
  shows "pci_slot (pre @ y # ds) = None"
proof -
  have r: "rev (pre @ y # ds) = rev ds @ y # rev pre" by simp
  have dw: "dropWhile is_hex_digit (rev ds @ y # rev pre) = y # rev pre"
    by (rule dropWhile_run) (use assms in simp_all)
  show ?thesis
    unfolding pci_slot_def Let_def r dw using assms(3) by simp
qed

lemma dec_hex_digits: "\<forall>c \<in> set (dec n). is_hex_digit c"
  using dec_digits(1) [of n] by (auto intro: digit_is_hex)

lemma pci_slot_bridge:
  "pci_slot (''pci-bridge,id=pci.'' @ dec b @ '',chassis_nr='' @ dec c) = None"
  using pci_slot_no_x [of "dec c" "CHR ''=''" "''pci-bridge,id=pci.'' @ dec b @ '',chassis_nr''"]
  by (simp add: dec_hex_digits)

lemma pci_slot_port:
  "pci_slot (''virtserialport,nr='' @ x @ '',name=virtio-serial'' @ dec i) = None"
  using pci_slot_no_x [of "dec i" "CHR ''l''" "''virtserialport,nr='' @ x @ '',name=virtio-seria''"]
  by (simp add: dec_hex_digits)

lemma pci_slot_cc:
  "pci_slot ''virtserialport,nr=1,bus=virtio-serial0.0,chardev=charvserialCC,id=charvserialCC,name=cc'' = None"
  using pci_slot_no_x [of "''cc''" "CHR ''=''" "''virtserialport,nr=1,bus=virtio-serial0.0,chardev=charvserialCC,id=charvserialCC,name''"]
  by (simp add: is_hex_digit_def)

lemma addBus_start: "addBus (args, 0, 0) = (args @ bridge_chunk 0, bus_of 0, addr_of 0)"
  by (simp add: bus_of_def addr_of_def bridge_chunk_def)

lemma add_net_closed:
  "add_net net (args, bus_of p, addr_of p)
   = (args @ [''-netdev'', ''tap,id='' @ Tap net @ '',script=no,ifname='' @ Tap net,
              ''-device'', nic_arg net (bus_of p) (addr_of p)] @ bridge_chunk (Suc p),
      bus_of (Suc p), addr_of (Suc p))"
  by (simp add: Let_def DEV_PER_BUS_def bus_of_def addr_of_def bridge_chunk_def mod_Suc div_Suc)

lemma fold_add_net:
  "fold add_net nets (args, bus_of p, addr_of p)
   = (args @ net_chunks nets p, bus_of (p + length nets), addr_of (p + length nets))"
proof (induction nets arbitrary: args p)
  case Nil
  then show ?case by simp
next
  case (Cons net nets)
  show ?case
    by (simp only: fold_simps add_net_closed Cons.IH) simp
qed

lemma add_cc_closed:
  "add_cc vmPath (args, bus_of p, addr_of p)
   = (args @ cc_chunk vmPath p, bus_of (Suc p), addr_of (Suc p))"
  by (simp add: Let_def cc_chunk_def DEV_PER_BUS_def bus_of_def addr_of_def bridge_chunk_def
      mod_Suc div_Suc)

lemma add_virtio_closed:
  "add_virtio vmPath i ((args, bus_of p, addr_of p), slot)
   = (if i mod 30 = 0
      then ((args @ [''-device'', virtio_pci_arg (Suc slot) (bus_of p) (addr_of p)] @
               bridge_chunk (Suc p) @ port_chunk vmPath i (Suc slot),
             bus_of (Suc p), addr_of (Suc p)), Suc slot)
      else ((args @ port_chunk vmPath i slot, bus_of p, addr_of p), slot))"
  by (simp add: Let_def DEV_PER_VIRTIO_def port_chunk_def DEV_PER_BUS_def bus_of_def
      addr_of_def bridge_chunk_def mod_Suc div_Suc)

lemma fold_add_virtio:
  "fold (add_virtio vmPath) is ((args, bus_of p, addr_of p), slot)
   = ((args @ virtio_chunks vmPath is p slot,
       bus_of (p + new_devices is), addr_of (p + new_devices is)), slot + new_devices is)"
proof (induction "is" arbitrary: args p slot)
  case Nil
  then show ?case by (simp add: new_devices_def)
next
  case (Cons i "is")
  show ?case
  proof (cases "i mod 30 = 0")
    case True
    then show ?thesis
      by (simp add: add_virtio_closed Cons.IH new_devices_def del: add_virtio.simps)
  next
    case False
    then show ?thesis
      by (simp add: add_virtio_closed Cons.IH new_devices_def del: add_virtio.simps)
  qed
qed

lemma qemuArgs_pci_closed:
  "qemuArgs_pci vm vmPath args =
     args @ bridge_chunk 0 @ net_chunks (Networks vm) 0 @
       cc_chunk vmPath (length (Networks vm)) @
       virtio_chunks vmPath [0..<unat (VirtioPorts vm)] (Suc (length (Networks vm))) 0"
  by (simp add: qemuArgs_pci_def Let_def addBus_start fold_add_net add_cc_closed
      fold_add_virtio del: addBus.simps add_cc.simps add_net.simps add_virtio.simps)

lemma pci_slot_nic_arg [simp]: "pci_slot (nic_arg net b a) = Some (b, a)"
  unfolding nic_arg_def by (rule pci_slot_nic)

lemma pci_slot_virtio_pci_arg [simp]: "pci_slot (virtio_pci_arg s b a) = Some (b, a)"
  unfolding virtio_pci_arg_def by (rule pci_slot_virtio)

lemma pci_slot_bridge_arg [simp]: "pci_slot (bridge_arg b) = None"
  unfolding bridge_arg_def by (rule pci_slot_bridge)

lemma pci_slot_cc_port_arg [simp]: "pci_slot cc_port_arg = None"
  unfolding cc_port_arg_def by (rule pci_slot_cc)

lemma pci_slot_virtio_port_arg [simp]: "pci_slot (virtio_port_arg nr s i) = None"
  using pci_slot_port [of "dec nr @ '',bus=virtio-serial'' @ dec s @
       ''.0,chardev=charvserial'' @ dec i @ '',id=charvserial'' @ dec i" i]
  by (simp add: virtio_port_arg_def)

lemma is_bridge_args [simp]:
  "is_bridge (bridge_arg b)" "\<not> is_bridge (nic_arg net b a)"
  "\<not> is_bridge (virtio_pci_arg s b a)" "\<not> is_bridge cc_port_arg"
  "\<not> is_bridge (virtio_port_arg nr s i)"
  by (simp_all add: is_bridge_def bridge_arg_def nic_arg_def virtio_pci_arg_def cc_port_arg_def
      virtio_port_arg_def)

lemma is_nic_args [simp]:
  "\<not> is_nic (bridge_arg b)" "is_nic (nic_arg net b a)"
  "\<not> is_nic (virtio_pci_arg s b a)" "\<not> is_nic cc_port_arg"
  "\<not> is_nic (virtio_port_arg nr s i)"
  by (simp_all add: is_nic_def bridge_arg_def nic_arg_def virtio_pci_arg_def cc_port_arg_def
      virtio_port_arg_def)

lemma dv_dev: "device_values (''-device'' # v # rest) = v # device_values rest"
  by simp

lemma dv_skip:
  "f \<noteq> ''-device'' \<Longrightarrow> v \<noteq> ''-device'' \<Longrightarrow> device_values (f # v # rest) = device_values rest"
  by (cases rest) simp_all

lemma dv_netdev:
  "device_values (''-netdev'' # (''tap,id='' @ x) # rest) = device_values rest"
  by (rule dv_skip) simp_all

lemma dv_chardev:
  "device_values (''-chardev'' # (''socket,id='' @ x) # rest) = device_values rest"
  by (rule dv_skip) simp_all

lemma dv_bridge_chunk:
  "device_values (bridge_chunk p @ rest) =
     (if p mod 31 = 0 then [bridge_arg (bus_of p)] else []) @ device_values rest"
  by (simp add: bridge_chunk_def)

lemma dv_net_chunks_Cons:
  "device_values (net_chunks (net # nets) p @ rest) =
     nic_arg net (bus_of p) (addr_of p) #
       device_values (bridge_chunk (Suc p) @ net_chunks nets (Suc p) @ rest)"
  using dv_netdev [of "Tap net @ '',script=no,ifname='' @ Tap net"]
  by (simp del: device_values.simps add: dv_dev)

lemma dv_cc_chunk:
  "device_values (cc_chunk vmPath p @ rest) =
     virtio_pci_arg 0 (bus_of p) (addr_of p) # cc_port_arg #
       device_values (bridge_chunk (Suc p) @ rest)"
  using dv_chardev [of "''charvserialCC,path='' @ Join vmPath ''cc'' @ '',server,nowait''"]
  by (simp del: device_values.simps add: dv_dev cc_chunk_def)

lemma dv_port_chunk:
  "device_values (port_chunk vmPath i slot @ rest) =
     virtio_port_arg (i mod 30 + 1) slot i # device_values rest"
  using dv_chardev [of "''charvserial'' @ dec i @ '',path='' @ Join vmPath ''virtio-serial'' @
        dec i @ '',server,nowait''"]
  by (simp del: device_values.simps add: dv_dev port_chunk_def)

lemma dv_virtio_chunks_Cons:
  "device_values (virtio_chunks vmPath (i # is) p slot @ rest) =
     (if i mod 30 = 0
      then virtio_pci_arg (Suc slot) (bus_of p) (addr_of p) #
           device_values (bridge_chunk (Suc p) @ port_chunk vmPath i (Suc slot) @
             virtio_chunks vmPath is (Suc p) (Suc slot) @ rest)
      else device_values (port_chunk vmPath i slot @ virtio_chunks vmPath is p slot @ rest))"
  by (simp del: device_values.simps add: dv_dev)

lemma map_filter_Cons_Some: "f x = Some y \<Longrightarrow> List.map_filter f (x # xs) = y # List.map_filter f xs"
  by (simp add: List.map_filter_def)

lemma map_filter_Cons_None: "f x = None \<Longrightarrow> List.map_filter f (x # xs) = List.map_filter f xs"
  by (simp add: List.map_filter_def)

lemma map_filter_append: "List.map_filter f (xs @ ys) = List.map_filter f xs @ List.map_filter f ys"
  by (simp add: List.map_filter_def)

lemma upt_shift: "p # [Suc p..<Suc p + n] = [p..<p + Suc n]"
  using upt_conv_Cons [of p "p + Suc n"] by simp

lemma map_upt_shift: "f p # map f [Suc p..<Suc p + n] = map f [p..<p + Suc n]"
  unfolding upt_shift [symmetric] by simp

lemma slots_bridge_chunk: "slots (bridge_chunk p @ rest) = slots rest"
  by (simp add: slots_def dv_bridge_chunk map_filter_Cons_None)

lemma slots_net_chunks:
  "slots (net_chunks nets p @ rest) = map slot_at [p..<p + length nets] @ slots rest"
proof (induction nets arbitrary: p)
  case Nil
  then show ?case by simp
next
  case (Cons net nets)
  have "slots (net_chunks (net # nets) p @ rest)
      = slot_at p # slots (bridge_chunk (Suc p) @ net_chunks nets (Suc p) @ rest)"
    unfolding slots_def dv_net_chunks_Cons
    by (simp add: map_filter_Cons_Some slot_at_def)
  also have "\<dots> = slot_at p # map slot_at [Suc p..<Suc p + length nets] @ slots rest"
    by (simp only: slots_bridge_chunk Cons.IH)
  also have "\<dots> = (slot_at p # map slot_at [Suc p..<Suc p + length nets]) @ slots rest"
    by simp
  also have "\<dots> = map slot_at [p..<p + Suc (length nets)] @ slots rest"
    by (simp only: map_upt_shift)
  also have "\<dots> = map slot_at [p..<p + length (net # nets)] @ slots rest"
    by simp
  finally show ?case .
qed

lemma slots_cc_chunk: "slots (cc_chunk vmPath p @ rest) = slot_at p # slots rest"
proof -
  have "slots (cc_chunk vmPath p @ rest) = slot_at p # slots (bridge_chunk (Suc p) @ rest)"
    unfolding slots_def dv_cc_chunk
    by (simp add: map_filter_Cons_Some map_filter_Cons_None slot_at_def)
  then show ?thesis by (simp only: slots_bridge_chunk)
qed

lemma slots_port_chunk: "slots (port_chunk vmPath i slot @ rest) = slots rest"
  unfolding slots_def dv_port_chunk by (simp add: map_filter_Cons_None)

lemma slots_virtio_chunks:
  "slots (virtio_chunks vmPath is p slot @ rest)
     = map slot_at [p..<p + new_devices is] @ slots rest"
proof (induction "is" arbitrary: p slot)
  case Nil
  then show ?case by (simp add: new_devices_def)
next
  case (Cons i "is")
  show ?case
  proof (cases "i mod 30 = 0")
    case True
    have "slots (virtio_chunks vmPath (i # is) p slot @ rest)
        = slot_at p # slots (bridge_chunk (Suc p) @ port_chunk vmPath i (Suc slot) @
             virtio_chunks vmPath is (Suc p) (Suc slot) @ rest)"
      unfolding slots_def dv_virtio_chunks_Cons using True
      by (simp add: map_filter_Cons_Some slot_at_def)
    also have "\<dots> = slot_at p # map slot_at [Suc p..<Suc p + new_devices is] @ slots rest"
      by (simp only: slots_bridge_chunk slots_port_chunk Cons.IH)
    also have "\<dots> = (slot_at p # map slot_at [Suc p..<Suc p + new_devices is]) @ slots rest"
      by simp
    also have "\<dots> = map slot_at [p..<p + Suc (new_devices is)] @ slots rest"
      by (simp only: map_upt_shift)
    also have "Suc (new_devices is) = new_devices (i # is)"
      using True by (simp add: new_devices_def)
    finally show ?thesis .
  next
    case False
    have "slots (virtio_chunks vmPath (i # is) p slot @ rest)
        = slots (port_chunk vmPath i slot @ virtio_chunks vmPath is p slot @ rest)"
      unfolding slots_def dv_virtio_chunks_Cons using False by simp
    also have "\<dots> = map slot_at [p..<p + new_devices is] @ slots rest"
      by (simp only: slots_port_chunk Cons.IH)
    also have "\<dots> = map slot_at [p..<p + new_devices (i # is)] @ slots rest"
      using False by (simp add: new_devices_def)
    finally show ?thesis .
  qed
qed

lemma ceil_div_30: "(n + 29) div 30 = n div 30 + (if n mod 30 = 0 then 0 else (1::nat))"
proof -
  have "(n mod 30 + 29) div 30 = (if n mod 30 = 0 then 0 else (1::nat))"
  proof (cases "n mod 30 = 0")
    case True
    then show ?thesis by simp
  next
    case False
    then have "30 \<le> n mod 30 + 29" "n mod 30 + 29 < 60" by simp_all
    then have "(n mod 30 + 29) div 30 = 1"
      by (intro div_nat_eqI) simp_all
    with False show ?thesis by simp
  qed
  moreover have "(n + 29) div 30 = n div 30 + (n mod 30 + 29) div 30"
  proof -
    have "(30 * (n div 30) + (n mod 30 + 29)) div 30 = n div 30 + (n mod 30 + 29) div 30"
      by (rule div_mult_self4) simp
    then show ?thesis by (simp add: add.assoc)
  qed
  ultimately show ?thesis by simp
qed

lemma virtio_devices_Suc:
  "virtio_devices (Suc n) = virtio_devices n + (if n mod 30 = 0 then 1 else 0)"
proof -
  have "virtio_devices (Suc n) = (n + 30) div 30" by (simp add: virtio_devices_def)
  also have "\<dots> = n div 30 + 1" by simp
  finally show ?thesis by (simp add: virtio_devices_def ceil_div_30)
qed

lemma new_devices_upt: "new_devices [0..<n] = virtio_devices n"
proof (induction n)
  case 0
  then show ?case by (simp add: new_devices_def virtio_devices_def)
next
  case (Suc n)
  have "new_devices [0..<Suc n] = new_devices [0..<n] + (if n mod 30 = 0 then 1 else 0)"
    by (simp add: new_devices_def)
  moreover have "virtio_devices (Suc n) = virtio_devices n + (if n mod 30 = 0 then 1 else 0)"
    by (rule virtio_devices_Suc)
  ultimately show ?case using Suc by simp
qed

lemma pci_slots_closed:
  "pci_slots vm vmPath = map slot_at [0..<device_count vm]"
proof -
  let ?n = "length (Networks vm)" and ?v = "virtio_devices (unat (VirtioPorts vm))"
  have "pci_slots vm vmPath
      = slots (bridge_chunk 0 @ net_chunks (Networks vm) 0 @ cc_chunk vmPath ?n @
          virtio_chunks vmPath [0..<unat (VirtioPorts vm)] (Suc ?n) 0 @ [])"
    by (simp add: pci_slots_def slots_def qemuArgs_pci_closed)
  also have "\<dots> = map slot_at [0..<0 + ?n] @ slot_at ?n # map slot_at [Suc ?n..<Suc ?n + ?v] @ slots []"
    by (simp only: slots_bridge_chunk slots_net_chunks slots_cc_chunk slots_virtio_chunks
        new_devices_upt)
  also have "\<dots> = map slot_at ([0..<?n] @ [?n] @ [Suc ?n..<Suc ?n + ?v])"
    by (simp add: slots_def List.map_filter_def)
  also have "[0..<?n] @ [?n] @ [Suc ?n..<Suc ?n + ?v] = [0..<device_count vm]"
  proof -
    have "[0..<Suc ?n + ?v] = [0..<Suc ?n] @ [Suc ?n..<Suc ?n + ?v]"
      by (rule upt_add_eq_append) simp
    then show ?thesis
      by (simp add: device_count_def)
  qed
  finally show ?thesis .
qed

lemma bus_of_mono: "p \<le> q \<Longrightarrow> bus_of p \<le> bus_of q"
  by (simp add: bus_of_def div_le_mono)

lemma bus_of_Suc: "bus_of (Suc p) = (if Suc p mod 31 = 0 then Suc (bus_of p) else bus_of p)"
  by (simp add: bus_of_def div_Suc)

lemma brs_refl [simp]: "brs p p = []"
  by (simp add: brs_def)

lemma brs_step:
  assumes "Suc p \<le> q"
  shows "(if Suc p mod 31 = 0 then [bridge_arg (bus_of (Suc p))] else []) @ brs (Suc p) q = brs p q"
proof (cases "Suc p mod 31 = 0")
  case True
  then have s: "bus_of (Suc p) = Suc (bus_of p)" by (simp add: bus_of_Suc)
  from bus_of_mono [OF assms] s have "Suc (bus_of p) < Suc (bus_of q)" by simp
  then have "[Suc (bus_of p)..<Suc (bus_of q)]
      = Suc (bus_of p) # [Suc (Suc (bus_of p))..<Suc (bus_of q)]"
    by (rule upt_conv_Cons)
  with True s show ?thesis by (simp add: brs_def)
next
  case False
  then have "bus_of (Suc p) = bus_of p" by (simp add: bus_of_Suc)
  with False show ?thesis by (simp add: brs_def)
qed

lemma brs_trans:
  assumes "p \<le> q" and "q \<le> r"
  shows "brs p q @ brs q r = brs p r"
proof -
  from assms have a: "Suc (bus_of p) \<le> Suc (bus_of q)" and b: "Suc (bus_of q) \<le> Suc (bus_of r)"
    by (simp_all add: bus_of_mono)
  from b obtain k where k: "Suc (bus_of r) = Suc (bus_of q) + k"
    using le_Suc_ex by blast
  have "[Suc (bus_of p)..<Suc (bus_of q) + k]
      = [Suc (bus_of p)..<Suc (bus_of q)] @ [Suc (bus_of q)..<Suc (bus_of q) + k]"
    using a by (rule upt_add_eq_append)
  then show ?thesis
    unfolding brs_def k by simp
qed

lemma bridges_bridge_chunk:
  "bridges_of (bridge_chunk p @ rest) =
     (if p mod 31 = 0 then [bridge_arg (bus_of p)] else []) @ bridges_of rest"
  by (simp add: bridges_of_def dv_bridge_chunk)

lemma bridges_net_chunks:
  "bridges_of (net_chunks nets p @ rest) = brs p (p + length nets) @ bridges_of rest"
proof (induction nets arbitrary: p)
  case Nil
  then show ?case by simp
next
  case (Cons net nets)
  have "bridges_of (net_chunks (net # nets) p @ rest)
      = bridges_of (bridge_chunk (Suc p) @ net_chunks nets (Suc p) @ rest)"
    unfolding bridges_of_def dv_net_chunks_Cons by simp
  also have "\<dots> = (if Suc p mod 31 = 0 then [bridge_arg (bus_of (Suc p))] else []) @
      brs (Suc p) (Suc p + length nets) @ bridges_of rest"
    by (simp only: bridges_bridge_chunk Cons.IH)
  also have "\<dots> = ((if Suc p mod 31 = 0 then [bridge_arg (bus_of (Suc p))] else []) @
      brs (Suc p) (Suc p + length nets)) @ bridges_of rest"
    by simp
  also have "\<dots> = brs p (Suc p + length nets) @ bridges_of rest"
    by (subst brs_step) simp_all
  finally show ?case by simp
qed

lemma bridges_cc_chunk:
  "bridges_of (cc_chunk vmPath p @ rest) = brs p (Suc p) @ bridges_of rest"
proof -
  have "bridges_of (cc_chunk vmPath p @ rest) = bridges_of (bridge_chunk (Suc p) @ rest)"
    unfolding bridges_of_def dv_cc_chunk by simp
  also have "\<dots> = ((if Suc p mod 31 = 0 then [bridge_arg (bus_of (Suc p))] else []) @
      brs (Suc p) (Suc p)) @ bridges_of rest"
    by (simp add: bridges_bridge_chunk)
  also have "\<dots> = brs p (Suc p) @ bridges_of rest"
    by (subst brs_step) simp_all
  finally show ?thesis .
qed

lemma bridges_port_chunk: "bridges_of (port_chunk vmPath i slot @ rest) = bridges_of rest"
  unfolding bridges_of_def dv_port_chunk by simp

lemma bridges_virtio_chunks:
  "bridges_of (virtio_chunks vmPath is p slot @ rest)
     = brs p (p + new_devices is) @ bridges_of rest"
proof (induction "is" arbitrary: p slot)
  case Nil
  then show ?case by (simp add: new_devices_def)
next
  case (Cons i "is")
  show ?case
  proof (cases "i mod 30 = 0")
    case True
    have "bridges_of (virtio_chunks vmPath (i # is) p slot @ rest)
        = bridges_of (bridge_chunk (Suc p) @ port_chunk vmPath i (Suc slot) @
             virtio_chunks vmPath is (Suc p) (Suc slot) @ rest)"
      unfolding bridges_of_def dv_virtio_chunks_Cons using True by simp
    also have "\<dots> = ((if Suc p mod 31 = 0 then [bridge_arg (bus_of (Suc p))] else []) @
        brs (Suc p) (Suc p + new_devices is)) @ bridges_of rest"
      by (simp only: bridges_bridge_chunk bridges_port_chunk Cons.IH append_assoc)
    also have "\<dots> = brs p (Suc p + new_devices is) @ bridges_of rest"
      by (subst brs_step) simp_all
    also have "Suc p + new_devices is = p + new_devices (i # is)"
      using True by (simp add: new_devices_def)
    finally show ?thesis .
  next
    case False
    have "bridges_of (virtio_chunks vmPath (i # is) p slot @ rest)
        = bridges_of (port_chunk vmPath i slot @ virtio_chunks vmPath is p slot @ rest)"
      unfolding bridges_of_def dv_virtio_chunks_Cons using False by simp
    also have "\<dots> = brs p (p + new_devices is) @ bridges_of rest"
      by (simp only: bridges_port_chunk Cons.IH)
    also have "p + new_devices is = p + new_devices (i # is)"
      using False by (simp add: new_devices_def)
    finally show ?thesis .
  qed
qed

lemma pci_bridges_closed:
  "pci_bridges vm vmPath = map bridge_arg [1..<2 + device_count vm div 31]"
proof -
  let ?n = "length (Networks vm)" and ?v = "virtio_devices (unat (VirtioPorts vm))"
  have "pci_bridges vm vmPath
      = bridges_of (bridge_chunk 0 @ net_chunks (Networks vm) 0 @ cc_chunk vmPath ?n @
          virtio_chunks vmPath [0..<unat (VirtioPorts vm)] (Suc ?n) 0 @ [])"
    by (simp add: pci_bridges_def bridges_of_def qemuArgs_pci_closed)
  also have "\<dots> = bridge_arg (bus_of 0) #
      brs 0 (0 + ?n) @ brs ?n (Suc ?n) @ brs (Suc ?n) (Suc ?n + ?v) @ bridges_of []"
    by (simp only: bridges_bridge_chunk bridges_net_chunks bridges_cc_chunk
        bridges_virtio_chunks new_devices_upt) simp
  also have "brs 0 (0 + ?n) @ brs ?n (Suc ?n) @ brs (Suc ?n) (Suc ?n + ?v) @ bridges_of []
      = brs 0 (Suc ?n + ?v)"
    by (simp add: brs_trans bridges_of_def)
  also have "bridge_arg (bus_of 0) # brs 0 (Suc ?n + ?v)
      = map bridge_arg (bus_of 0 # [Suc (bus_of 0)..<Suc (bus_of (Suc ?n + ?v))])"
    by (simp add: brs_def)
  also have "bus_of 0 # [Suc (bus_of 0)..<Suc (bus_of (Suc ?n + ?v))]
      = [bus_of 0..<Suc (bus_of (Suc ?n + ?v))]"
    by (rule upt_conv_Cons [symmetric]) (simp add: bus_of_def)
  finally show ?thesis
    by (simp add: bus_of_def device_count_def)
qed

lemma nics_bridge_chunk: "nics_of (bridge_chunk p @ rest) = nics_of rest"
  by (simp add: nics_of_def dv_bridge_chunk)

lemma nics_net_chunks:
  "nics_of (net_chunks nets p @ rest)
     = map (\<lambda>(k, net). nic_arg net (bus_of k) (addr_of k)) (List.enumerate p nets) @ nics_of rest"
proof (induction nets arbitrary: p)
  case Nil
  then show ?case by simp
next
  case (Cons net nets)
  have "nics_of (net_chunks (net # nets) p @ rest)
      = nic_arg net (bus_of p) (addr_of p) #
          nics_of (bridge_chunk (Suc p) @ net_chunks nets (Suc p) @ rest)"
    unfolding nics_of_def dv_net_chunks_Cons by simp
  also have "\<dots> = nic_arg net (bus_of p) (addr_of p) #
      map (\<lambda>(k, net). nic_arg net (bus_of k) (addr_of k)) (List.enumerate (Suc p) nets) @
      nics_of rest"
    by (simp only: nics_bridge_chunk Cons.IH)
  finally show ?case by simp
qed

lemma nics_cc_chunk: "nics_of (cc_chunk vmPath p @ rest) = nics_of rest"
proof -
  have "nics_of (cc_chunk vmPath p @ rest) = nics_of (bridge_chunk (Suc p) @ rest)"
    unfolding nics_of_def dv_cc_chunk by simp
  then show ?thesis by (simp only: nics_bridge_chunk)
qed

lemma nics_port_chunk: "nics_of (port_chunk vmPath i slot @ rest) = nics_of rest"
  unfolding nics_of_def dv_port_chunk by simp

lemma nics_virtio_chunks: "nics_of (virtio_chunks vmPath is p slot @ rest) = nics_of rest"
proof (induction "is" arbitrary: p slot)
  case Nil
  then show ?case by simp
next
  case (Cons i "is")
  show ?case
  proof (cases "i mod 30 = 0")
    case True
    have "nics_of (virtio_chunks vmPath (i # is) p slot @ rest)
        = nics_of (bridge_chunk (Suc p) @ port_chunk vmPath i (Suc slot) @
             virtio_chunks vmPath is (Suc p) (Suc slot) @ rest)"
      unfolding nics_of_def dv_virtio_chunks_Cons using True by simp
    then show ?thesis
      by (simp only: nics_bridge_chunk nics_port_chunk Cons.IH)
  next
    case False
    have "nics_of (virtio_chunks vmPath (i # is) p slot @ rest)
        = nics_of (port_chunk vmPath i slot @ virtio_chunks vmPath is p slot @ rest)"
      unfolding nics_of_def dv_virtio_chunks_Cons using False by simp
    then show ?thesis
      by (simp only: nics_port_chunk Cons.IH)
  qed
qed

lemma pci_nics_closed:
  "pci_nics vm vmPath
     = map (\<lambda>(k, net). nic_arg net (bus_of k) (addr_of k)) (List.enumerate 0 (Networks vm))"
proof -
  let ?n = "length (Networks vm)"
  have "pci_nics vm vmPath
      = nics_of (bridge_chunk 0 @ net_chunks (Networks vm) 0 @ cc_chunk vmPath ?n @
          virtio_chunks vmPath [0..<unat (VirtioPorts vm)] (Suc ?n) 0 @ [])"
    by (simp add: pci_nics_def nics_of_def qemuArgs_pci_closed)
  also have "\<dots> = map (\<lambda>(k, net). nic_arg net (bus_of k) (addr_of k))
      (List.enumerate 0 (Networks vm)) @ nics_of []"
    by (simp only: nics_bridge_chunk nics_net_chunks nics_cc_chunk nics_virtio_chunks)
  finally show ?thesis by (simp add: nics_of_def)
qed

lemma pci_nics_nth:
  "k < length (Networks vm) \<Longrightarrow>
   pci_nics vm vmPath ! k = nic_arg (Networks vm ! k) (bus_of k) (addr_of k)"
  by (simp add: pci_nics_closed nth_enumerate_eq)

lemma slot_at_inj: "slot_at p = slot_at q \<Longrightarrow> p = q"
proof -
  assume "slot_at p = slot_at q"
  then have "p div 31 = q div 31" "p mod 31 = q mod 31"
    by (simp_all add: slot_at_def bus_of_def addr_of_def)
  then show "p = q" by (metis div_mult_mod_eq)
qed

lemma distinct_pci_slots: "distinct (pci_slots vm vmPath)"
  unfolding pci_slots_closed
  by (simp add: distinct_map inj_on_def) (blast dest: slot_at_inj)

lemma pci_slots_addr:
  "(b, a) \<in> set (pci_slots vm vmPath) \<Longrightarrow> 1 \<le> a \<and> a \<le> 31"
  unfolding pci_slots_closed by (auto simp: slot_at_def addr_of_def)

lemma bus_members: "{p. bus_of p = n} \<subseteq> {31 * (n - 1)..<31 * (n - 1) + 31}"
proof
  fix p
  assume "p \<in> {p. bus_of p = n}"
  then have d: "p div 31 = n - 1" by (auto simp: bus_of_def)
  have "p = 31 * (p div 31) + p mod 31" by simp
  moreover have "p mod 31 < 31" by simp
  ultimately have "31 * (p div 31) \<le> p" "p < 31 * (p div 31) + 31" by linarith+
  with d show "p \<in> {31 * (n - 1)..<31 * (n - 1) + 31}" by simp
qed

lemma pci_slots_per_bus:
  "length (filter (\<lambda>(b, a). b = n) (pci_slots vm vmPath)) \<le> 31"
proof -
  have "length (filter (\<lambda>(b, a). b = n) (pci_slots vm vmPath))
      = length (filter (\<lambda>p. bus_of p = n) [0..<device_count vm])"
    unfolding pci_slots_closed by (simp add: filter_map o_def slot_at_def)
  also have "\<dots> = card ({p. bus_of p = n} \<inter> set [0..<device_count vm])"
    by (rule distinct_length_filter) simp
  also have "\<dots> \<le> card {31 * (n - 1)..<31 * (n - 1) + 31}"
    by (rule card_mono) (use bus_members in auto)
  finally show ?thesis by simp
qed

lemma qemuArgs_sections:
  "qemuArgs unesc huge vm i vmPath =
     qemuArgs_head unesc vm i vmPath @ qemuArgs_pci vm vmPath [] @ qemuArgs_tail huge vm []"
  by (simp add: qemuArgs_def qemuArgs_pci_closed qemuArgs_tail_def Let_def)

lemma count_addr_31: "length (filter (\<lambda>p. p mod 31 = 30) [0..<d]) = d div 31"
proof (induction d)
  case 0
  then show ?case by simp
next
  case (Suc d)
  then show ?case by (simp add: div_Suc mod_Suc)
qed

lemma bridges_count:
  "length (pci_bridges vm vmPath)
     = 1 + length (filter (\<lambda>(b, a). a = 31) (pci_slots vm vmPath))"
proof -
  have "length (filter (\<lambda>(b, a). a = 31) (pci_slots vm vmPath))
      = length (filter (\<lambda>p. p mod 31 = 30) [0..<device_count vm])"
    unfolding pci_slots_closed by (simp add: filter_map o_def slot_at_def addr_of_def)
  then show ?thesis
    by (simp add: pci_bridges_closed count_addr_31)
qed

lemma dec_small: "dec 1 = ''1''" "dec 2 = ''2''" "dec (Suc 0) = ''1''"
  by (simp_all add: dec_def to_base.simps digit_char_def)

lemma hex_small: "hex 1 = ''1''" "hex 2 = ''2''" "hex (Suc 0) = ''1''"
  by (simp_all add: hex_def to_base.simps digit_char_def)

lemma virtio_devices_mono: "m \<le> n \<Longrightarrow> virtio_devices m \<le> virtio_devices n"
  by (simp add: virtio_devices_def div_le_mono)

section \<open>The PCI invariant\<close>

text \<open>
  C4: for every configuration, with any number of NICs and virtio ports, the devices that
  the builder places on the PCI buses (one per NIC, one for the command-and-control port, one
  for every 30 virtio ports) are, in the order of the vector, device \<open>p\<close> on bus
  \<open>1 + p div 31\<close> at address \<open>1 + p mod 31\<close>. So every address lies between 1 and 31,
  no bus carries more than 31 devices and no two devices share a place. The
  \<open>pci-bridge\<close> tokens are those of the buses 1 to \<open>1 + d div 31\<close> for \<open>d\<close>
  devices: the first bridge, emitted before the networks, and one more for each device that
  took address 31, that is for each time the address counter reached 32. The PCI layout is
  the middle section of the vector that \<open>qemuArgs\<close> returns.
\<close>

theorem pci_layout:
  "pci_slots vm vmPath = map (\<lambda>p. (1 + p div 31, 1 + p mod 31)) [0..<device_count vm] \<and>
   (\<forall>(b, a) \<in> set (pci_slots vm vmPath). 1 \<le> a \<and> a \<le> 31) \<and>
   (\<forall>n. length (filter (\<lambda>(b, a). b = n) (pci_slots vm vmPath)) \<le> 31) \<and>
   distinct (pci_slots vm vmPath) \<and>
   pci_bridges vm vmPath = map bridge_arg [1..<2 + device_count vm div 31] \<and>
   length (pci_bridges vm vmPath)
     = 1 + length (filter (\<lambda>(b, a). a = 31) (pci_slots vm vmPath)) \<and>
   qemuArgs unesc huge vm i vmPath =
     qemuArgs_head unesc vm i vmPath @ qemuArgs_pci vm vmPath [] @ qemuArgs_tail huge vm []"
proof (intro conjI)
  show "pci_slots vm vmPath = map (\<lambda>p. (1 + p div 31, 1 + p mod 31)) [0..<device_count vm]"
    by (simp add: pci_slots_closed slot_at_def bus_of_def addr_of_def)
  show "\<forall>(b, a) \<in> set (pci_slots vm vmPath). 1 \<le> a \<and> a \<le> 31"
    using pci_slots_addr by blast
  show "\<forall>n. length (filter (\<lambda>(b, a). b = n) (pci_slots vm vmPath)) \<le> 31"
    by (simp add: pci_slots_per_bus)
  show "distinct (pci_slots vm vmPath)"
    by (rule distinct_pci_slots)
  show "pci_bridges vm vmPath = map bridge_arg [1..<2 + device_count vm div 31]"
    by (rule pci_bridges_closed)
  show "length (pci_bridges vm vmPath)
     = 1 + length (filter (\<lambda>(b, a). a = 31) (pci_slots vm vmPath))"
    by (rule bridges_count)
  show "qemuArgs unesc huge vm i vmPath =
     qemuArgs_head unesc vm i vmPath @ qemuArgs_pci vm vmPath [] @ qemuArgs_tail huge vm []"
    by (rule qemuArgs_sections)
qed

theorem pci_layout_witness:
  "length (pci_slots nics33_config ''/x'') = 34 \<and>
   pci_slots nics33_config ''/x'' ! 30 = (1, 31) \<and>
   pci_slots nics33_config ''/x'' ! 31 = (2, 1) \<and>
   pci_slots nics33_config ''/x'' ! 33 = (2, 3) \<and>
   length (filter (\<lambda>(b, a). b = 1) (pci_slots nics33_config ''/x'')) \<le> 31 \<and>
   length (pci_bridges nics33_config ''/x'') = 2 \<and>
   length (filter (\<lambda>(b, a). a = 31) (pci_slots nics33_config ''/x'')) = 1"
proof -
  have dc: "device_count nics33_config = 34"
    by (simp add: device_count_def nics33_config_def minimal_config_def virtio_devices_def)
  note layout = pci_layout [of nics33_config "''/x''" "join_with '' ''" "''''" 0]
  from layout dc
  have slots: "pci_slots nics33_config ''/x''
      = map (\<lambda>p. (1 + p div 31, 1 + p mod 31)) [0..<34]"
    by presburger
  from layout dc have bridges: "length (pci_bridges nics33_config ''/x'') = 2"
    by simp
  from layout bridges
  have at31: "length (filter (\<lambda>(b, a). a = 31) (pci_slots nics33_config ''/x'')) = 1"
    by simp
  from layout
  have bus1: "length (filter (\<lambda>(b, a). b = 1) (pci_slots nics33_config ''/x'')) \<le> 31"
    by blast
  have "length (pci_slots nics33_config ''/x'') = 34"
    "pci_slots nics33_config ''/x'' ! 30 = (1, 31)"
    "pci_slots nics33_config ''/x'' ! 31 = (2, 1)"
    "pci_slots nics33_config ''/x'' ! 33 = (2, 3)"
    unfolding slots by simp_all
  with bridges at31 bus1 show ?thesis by blast
qed

section \<open>Scenario 2: 33 NICs\<close>

text \<open>
  C3, as stated, fails: in the vector built for the configuration with 33 identical NICs,
  the 33rd NIC is at address 2 of bus 2. Bus 1 holds 31 NICs (addresses 1 to 31), so it is
  the 32nd NIC that gets \<open>pci.2,addr=0x1\<close>.
\<close>

theorem nic33_address_counterexample:
  "filter is_nic (device_values (qemuArgs (join_with '' '') '''' nics33_config 0 ''/x'')) ! 32
     = ''driver=e1000,netdev=mega_tap0,mac=00:11:22:33:44:55,bus=pci.2,addr=0x2'' \<and>
   ''driver=e1000,netdev=mega_tap0,mac=00:11:22:33:44:55,bus=pci.2,addr=0x2''
     \<noteq> ''driver=e1000,netdev=mega_tap0,mac=00:11:22:33:44:55,bus=pci.2,addr=0x1''"
  by code_simp

text \<open>
  C3 (amended): for a configuration with 33 identical NICs (and at most 810 virtio ports,
  beyond which the virtio devices fill bus 2), the PCI layout has exactly two
  \<open>pci-bridge\<close> devices, \<open>pci.1\<close> and \<open>pci.2\<close>; the device token of the 32nd NIC
  carries \<open>bus=pci.2,addr=0x1\<close> and that of the 33rd NIC \<open>bus=pci.2,addr=0x2\<close>.
\<close>

theorem nics33_layout:
  assumes "Networks vm = replicate 33 nic" and "unat (VirtioPorts vm) \<le> 810"
  shows "pci_bridges vm vmPath
           = [''pci-bridge,id=pci.1,chassis_nr=1'', ''pci-bridge,id=pci.2,chassis_nr=2''] \<and>
         length (pci_nics vm vmPath) = 33 \<and>
         pci_nics vm vmPath ! 31 =
           ''driver='' @ Driver nic @ '',netdev='' @ Tap nic @ '',mac='' @ MAC nic @
             '',bus=pci.2,addr=0x1'' \<and>
         pci_nics vm vmPath ! 32 =
           ''driver='' @ Driver nic @ '',netdev='' @ Tap nic @ '',mac='' @ MAC nic @
             '',bus=pci.2,addr=0x2''"
proof (intro conjI)
  have "virtio_devices (unat (VirtioPorts vm)) \<le> virtio_devices 810"
    using assms(2) by (rule virtio_devices_mono)
  also have "virtio_devices 810 = 27" by (simp add: virtio_devices_def)
  finally have "34 \<le> device_count vm" "device_count vm \<le> 61"
    using assms(1) by (simp_all add: device_count_def)
  then have "device_count vm div 31 = 1"
    by (intro div_nat_eqI) simp_all
  then have "pci_bridges vm vmPath = map bridge_arg [1..<3]"
    by (simp add: pci_bridges_closed)
  also have "[1..<3] = [1, 2::nat]" by (simp add: upt_rec)
  finally show "pci_bridges vm vmPath
      = [''pci-bridge,id=pci.1,chassis_nr=1'', ''pci-bridge,id=pci.2,chassis_nr=2'']"
    by (simp add: bridge_arg_def dec_small)
  show "length (pci_nics vm vmPath) = 33"
    using assms(1) by (simp add: pci_nics_closed)
  have places: "bus_of 31 = 2" "addr_of 31 = 1" "bus_of 32 = 2" "addr_of 32 = 2"
    by (simp_all add: bus_of_def addr_of_def)
  have nets: "Networks vm ! 31 = nic" "Networks vm ! 32 = nic"
    by (simp_all add: assms(1))
  have "pci_nics vm vmPath ! 31 = nic_arg (Networks vm ! 31) (bus_of 31) (addr_of 31)"
    by (rule pci_nics_nth) (simp add: assms(1))
  also have "\<dots> = nic_arg nic 2 1"
    by (simp only: places nets)
  finally show "pci_nics vm vmPath ! 31 =
           ''driver='' @ Driver nic @ '',netdev='' @ Tap nic @ '',mac='' @ MAC nic @
             '',bus=pci.2,addr=0x1''"
    by (simp add: nic_arg_def dec_small hex_small)
  have "pci_nics vm vmPath ! 32 = nic_arg (Networks vm ! 32) (bus_of 32) (addr_of 32)"
    by (rule pci_nics_nth) (simp add: assms(1))
  also have "\<dots> = nic_arg nic 2 2"
    by (simp only: places nets)
  finally show "pci_nics vm vmPath ! 32 =
           ''driver='' @ Driver nic @ '',netdev='' @ Tap nic @ '',mac='' @ MAC nic @
             '',bus=pci.2,addr=0x2''"
    by (simp add: nic_arg_def dec_small hex_small)
qed

theorem nics33_layout_witness:
  "pci_bridges nics33_config ''/x''
     = [''pci-bridge,id=pci.1,chassis_nr=1'', ''pci-bridge,id=pci.2,chassis_nr=2''] \<and>
   length (pci_nics nics33_config ''/x'') = 33 \<and>
   pci_nics nics33_config ''/x'' ! 31
     = ''driver=e1000,netdev=mega_tap0,mac=00:11:22:33:44:55,bus=pci.2,addr=0x1'' \<and>
   pci_nics nics33_config ''/x'' ! 32
     = ''driver=e1000,netdev=mega_tap0,mac=00:11:22:33:44:55,bus=pci.2,addr=0x2''"
proof -
  have nets: "Networks nics33_config = replicate 33 example_nic"
    by (simp add: nics33_config_def)
  have ports: "unat (VirtioPorts nics33_config) \<le> 810"
    by (simp add: nics33_config_def minimal_config_def)
  from nics33_layout [OF nets ports, of "''/x''"] show ?thesis
    by (simp add: example_nic_def)
qed

end
